theory Spec2Isabelle
  imports Complex_Main "HOL-Library.AList"
begin

section \<open>Data model\<close>

text \<open>
  The program \<^verbatim>\<open>wave-buoy-stats.py\<close> fetches one remote dataset per buoy, plots the
  recent significant wave height of every buoy, maps the buoys and draws the distribution of
  wave heights. The theory embeds the data path of that program. Calls that only draw
  (matplotlib, cartopy, joypy, seaborn) or publish a file (\<^verbatim>\<open>scp\<close>) are represented by
  the data handed to them; their own behaviour is not modelled.

  An instant is an integer number of seconds; \<^verbatim>\<open>timedelta(days=n)\<close> is \<open>days n\<close>.
  Wave heights and coordinates are floats in the program and reals here; a missing value
  (Python \<^verbatim>\<open>None\<close>, pandas \<^verbatim>\<open>NaN\<close>) is \<open>None\<close>.
\<close>

type_synonym instant = int

definition days :: "int \<Rightarrow> int" where
  "days n = n * 86400"

text \<open>
  The part of an xarray dataset the program reads: the \<^verbatim>\<open>waveTime\<close> axis with the
  variable \<^verbatim>\<open>waveHs\<close> on it, and the \<^verbatim>\<open>gpsTime\<close> axis with \<^verbatim>\<open>gpsLatitude\<close> and
  \<^verbatim>\<open>gpsLongitude\<close> on it. A variable has one value per point of its axis, so each axis
  is kept as one list of rows.
\<close>

record dataset =
  wave :: "(instant \<times> real) list"
  gps :: "(instant \<times> real \<times> real) list"

text \<open>What can go wrong inside \<^verbatim>\<open>xr.open_dataset\<close>, and the exceptions the program's own
  statements raise.\<close>

datatype failure = NetworkError | MalformedResponse | Timeout | OtherFailure

datatype py_error = TypeError | ValueError | IndexError | KeyError | UnboundLocalError

text \<open>
  The world outside the program: \<open>respond n url\<close> is what the \<open>n\<close>-th request of the run
  gets when it asks for \<open>url\<close>, and \<open>now\<close> is the wall clock (\<^verbatim>\<open>datetime.now()\<close>,
  \<^verbatim>\<open>datetime.today()\<close>), read as one instant for the whole run. The state of a run is the
  list of the requests made so far.
\<close>

record world =
  respond :: "nat \<Rightarrow> string \<Rightarrow> failure + dataset"
  now :: instant

text \<open>
  \<^verbatim>\<open>buoy_lookup\<close> is a Python dict from display name to station identifier. The program
  only iterates over its items, in insertion order: a roster is that list of pairs. The
  names of a dict are distinct; where a statement needs that, it says so.
\<close>

type_synonym roster = "(string \<times> string) list"

section \<open>Fetching one buoy\<close>

text \<open>
  \<^verbatim>\<open>
  def get_buoy_data(buoy_id):
      base_str = "https://thredds.cdip.ucsd.edu/thredds/dodsC/cdip/realtime/"
      request_url = base_str + buoy_id+ 'p1_rt.nc'
      try:
          return xr.open_dataset(request_url)
      except:
          return None
  \<close>
  The bare \<^verbatim>\<open>except\<close> catches whatever \<^verbatim>\<open>xr.open_dataset\<close> raises. The request is
  recorded with its URL; the dataset is taken as read in full by that one call.
\<close>

definition base_str :: string where
  "base_str = ''https://thredds.cdip.ucsd.edu/thredds/dodsC/cdip/realtime/''"

definition request_url :: "string \<Rightarrow> string" where
  "request_url buoy_id = base_str @ buoy_id @ ''p1_rt.nc''"

definition get_buoy_data :: "world \<Rightarrow> string list \<Rightarrow> string \<Rightarrow> dataset option \<times> string list" where
  "get_buoy_data W reqs buoy_id =
     (case respond W (length reqs) (request_url buoy_id) of
        Inl e \<Rightarrow> (None, reqs @ [request_url buoy_id])
      | Inr ds \<Rightarrow> (Some ds, reqs @ [request_url buoy_id]))"

text \<open>The outcomes one pass over the roster receives, in roster order, each request made
  after the ones before it.\<close>

fun fetches :: "world \<Rightarrow> string list \<Rightarrow> roster \<Rightarrow> dataset option list" where
  "fetches W reqs [] = []"
| "fetches W reqs ((key, v) # rest) =
     fst (get_buoy_data W reqs v) # fetches W (snd (get_buoy_data W reqs v)) rest"

definition urls :: "roster \<Rightarrow> string list" where
  "urls r = map (\<lambda>(key, v). request_url v) r"

section \<open>The time-series panels\<close>

text \<open>
  \<^verbatim>\<open>ds.sel(waveTime=slice(lo, hi))\<close> is a label slice: xarray asks the pandas index of
  the axis for the positions of the two bounds and takes the rows between them.
  \<open>get_slice_bound\<close> follows pandas' \<^verbatim>\<open>Index.get_slice_bound\<close>:
  \<^item> a label that occurs on the axis stands for its own positions, which must follow one
    another: the left bound is the first of them, the right bound is one past the last;
    when they do not follow one another pandas raises \<^verbatim>\<open>KeyError\<close>;
  \<^item> a label that does not occur is placed by binary search, which needs an axis in
    increasing or in decreasing order: on an increasing axis the bound is the number of
    labels before it, on a decreasing axis the number of labels after it; on an axis in
    neither order pandas raises \<^verbatim>\<open>KeyError\<close>.
  \<open>sel\<close> takes the rows from the left bound of \<open>lo\<close> up to the right bound of \<open>hi\<close>, none
  when the first is not before the second. On an axis in increasing order these are the
  rows whose time lies in the closed interval.
\<close>

definition get_slice_bound :: "instant list \<Rightarrow> instant \<Rightarrow> bool \<Rightarrow> py_error + nat" where
  "get_slice_bound labels lab right =
     (let occ = filter (\<lambda>i. labels ! i = lab) [0..<length labels]
      in if occ \<noteq> [] then
           (if occ = [hd occ..<Suc (last occ)]
            then Inr (if right then Suc (last occ) else hd occ)
            else Inl KeyError)
         else if sorted labels then Inr (length (filter (\<lambda>t. t < lab) labels))
         else if sorted (rev labels) then Inr (length (filter (\<lambda>t. lab < t) labels))
         else Inl KeyError)"

definition sel ::
  "(instant \<times> real) list \<Rightarrow> instant \<Rightarrow> instant \<Rightarrow> py_error + (instant \<times> real) list" where
  "sel rows lo hi =
     (case get_slice_bound (map fst rows) lo False of
        Inl e \<Rightarrow> Inl e
      | Inr start \<Rightarrow>
          (case get_slice_bound (map fst rows) hi True of
             Inl e \<Rightarrow> Inl e
           | Inr stop \<Rightarrow> Inr (take (stop - start) (drop start rows))))"

text \<open>
  \<^verbatim>\<open>
  def plot_buoy(ds,param='waveHs',ax=None, max_hs=False):
      last_month = ds.sel(waveTime=slice(datetime.now()-timedelta(days=10),datetime.now()))
      sig_wave = last_month['waveHs'].values
      ...
      ax.plot(time_pst,sig_wave/0.3048,lw=3)
      if max_hs:
          max_hs = sig_wave.max()/0.3048
      last_month = ds.sel(waveTime=slice(datetime.now()-timedelta(days=1),datetime.now()))
      sig_wave = last_month['waveHs'].values
      ...
      ax.plot(time_pst,sig_wave/0.3048,lw=3)
      if max_hs:
          return ax, last_month, max_hs
      else:
          return ax, last_month
  \<close>
  The conversion of the time axis from UTC to US/Pacific changes how an instant is
  displayed, not the instant. An axes object is the list of the lines drawn on it. The
  parameter \<^verbatim>\<open>param\<close> is never read by the body and is left out; the only call of the
  program passes \<^verbatim>\<open>ax\<close>.

  numpy's \<^verbatim>\<open>max\<close> of an array of size zero raises \<^verbatim>\<open>ValueError\<close>. The second
  \<^verbatim>\<open>if max_hs\<close> tests the float computed by the first: a float is true unless it is
  zero, so the function returns three values (\<open>Ret3\<close>) or two (\<open>Ret2\<close>).
\<close>

type_synonym line = "(instant \<times> real) list"

datatype plot_return =
  Ret2 "line list" "(instant \<times> real) list"
| Ret3 "line list" "(instant \<times> real) list" real

definition plot_buoy :: "world \<Rightarrow> dataset \<Rightarrow> line list \<Rightarrow> bool \<Rightarrow> py_error + plot_return" where
  "plot_buoy W ds ax max_hs =
     (case sel (wave ds) (now W - days 10) (now W) of
        Inl e \<Rightarrow> Inl e
      | Inr last_month \<Rightarrow>
          (let sig_wave = map snd last_month;
               ax1 = ax @ [map (\<lambda>(t, v). (t, v / 0.3048)) last_month]
           in if max_hs \<and> sig_wave = [] then Inl ValueError
              else
                (case sel (wave ds) (now W - days 1) (now W) of
                   Inl e \<Rightarrow> Inl e
                 | Inr last_day \<Rightarrow>
                     (let ax2 = ax1 @ [map (\<lambda>(t, v). (t, v / 0.3048)) last_day]
                      in if max_hs \<and> Max (set sig_wave) / 0.3048 \<noteq> 0
                         then Inr (Ret3 ax2 last_day (Max (set sig_wave) / 0.3048))
                         else Inr (Ret2 ax2 last_day)))))"

text \<open>
  \<^verbatim>\<open>
  def make_timeseries_plots(buoy_lookup):
      fig, ax = plt.subplots(len(buoy_lookup),sharex=True,gridspec_kw={"hspace":0.25})
      ...
      for i, (key, value) in enumerate(buoy_lookup.items()):
          ds = get_buoy_data(value)
          if ds is None:
              ax_current = ax[i].twinx()
              ... text key, 'cdip '+value, "Station Offline" ...
          else:
              ax_current = ax[i].twinx()
              ax_current, ds, max_hs = plot_buoy(ds, ax=ax_current,max_hs=True)
              ... text key ...
          ...
      ...
      plt.savefig(fname, ...)
  \<close>
  \<open>timeseries_loop\<close> is the \<^verbatim>\<open>for\<close> loop over a roster for which \<^verbatim>\<open>ax\<close> is an array of
  axes. A panel is what is drawn on the \<open>i\<close>-th axes: the offline placeholder, or the lines
  of \<open>plot_buoy\<close>. Unpacking two returned values into three names raises
  \<^verbatim>\<open>ValueError\<close>. The figure is saved after the loop, so an exception inside the loop
  leaves no picture.

  \<^verbatim>\<open>plt.subplots(n)\<close> raises \<^verbatim>\<open>ValueError\<close> for \<open>n = 0\<close>. For \<open>n = 1\<close> it returns one
  axes object, not an array: the first iteration makes its request and then raises
  \<^verbatim>\<open>TypeError\<close> at \<^verbatim>\<open>ax[i]\<close>, in either branch. From two stations on \<^verbatim>\<open>ax\<close> is an
  array with one entry per station.
\<close>

datatype panel =
  Offline_panel string string
| Online_panel string string "line list" real

fun panel_label :: "panel \<Rightarrow> string" where
  "panel_label (Offline_panel key v) = key"
| "panel_label (Online_panel key v ls m) = key"

fun is_offline :: "panel \<Rightarrow> bool" where
  "is_offline (Offline_panel key v) = True"
| "is_offline (Online_panel key v ls m) = False"

fun timeseries_loop :: "world \<Rightarrow> string list \<Rightarrow> roster \<Rightarrow> (py_error + panel list) \<times> string list" where
  "timeseries_loop W reqs [] = (Inr [], reqs)"
| "timeseries_loop W reqs ((key, v) # rest) =
     (case get_buoy_data W reqs v of
        (None, reqs') \<Rightarrow>
          (case timeseries_loop W reqs' rest of
             (Inl e, r) \<Rightarrow> (Inl e, r)
           | (Inr ps, r) \<Rightarrow> (Inr (Offline_panel key v # ps), r))
      | (Some ds, reqs') \<Rightarrow>
          (case plot_buoy W ds [] True of
             Inl e \<Rightarrow> (Inl e, reqs')
           | Inr (Ret2 ax d) \<Rightarrow> (Inl ValueError, reqs')
           | Inr (Ret3 ax d m) \<Rightarrow>
               (case timeseries_loop W reqs' rest of
                  (Inl e, r) \<Rightarrow> (Inl e, r)
                | (Inr ps, r) \<Rightarrow> (Inr (Online_panel key v ax m # ps), r))))"

definition make_timeseries_plots ::
  "world \<Rightarrow> string list \<Rightarrow> roster \<Rightarrow> (py_error + panel list) \<times> string list" where
  "make_timeseries_plots W reqs buoy_lookup =
     (case buoy_lookup of
        [] \<Rightarrow> (Inl ValueError, reqs)
      | [(key, v)] \<Rightarrow> (Inl TypeError, snd (get_buoy_data W reqs v))
      | _ \<Rightarrow> timeseries_loop W reqs buoy_lookup)"

text \<open>A dataset for which \<open>plot_buoy\<close> returns its three values: both slices can be
  taken, there is a sample in the ten-day slice, and the largest of them is not zero.\<close>

definition plottable :: "world \<Rightarrow> dataset \<Rightarrow> bool" where
  "plottable W ds =
     (case sel (wave ds) (now W - days 10) (now W) of
        Inl e \<Rightarrow> False
      | Inr last_month \<Rightarrow>
          last_month \<noteq> [] \<and> Max (set (map snd last_month)) \<noteq> 0 \<and>
          (case sel (wave ds) (now W - days 1) (now W) of Inl e \<Rightarrow> False | Inr last_day \<Rightarrow> True))"

section \<open>The station map\<close>

text \<open>
  \<^verbatim>\<open>
  def get_station_locations(buoy_lookup):
      lats = []
      lons = []
      station_name = []
      for i, (key, value) in enumerate(buoy_lookup.items()):
          ds = get_buoy_data(value)
          station_name.append(key)
          if ds is None:
              lats.append(None)
              lons.append(None)
          else:
              lat = ds.isel(gpsTime=-1)['gpsLatitude'].values
              lon = ds.isel(gpsTime=-1)['gpsLongitude'].values
              lats.append(lat)
              lons.append(lon)
      return (station_name, lats, lons)
  \<close>
  \<^verbatim>\<open>isel(gpsTime=-1)\<close> takes the last row of the GPS axis and raises
  \<^verbatim>\<open>IndexError\<close> when the axis has no row.
\<close>

fun get_station_locations ::
  "world \<Rightarrow> string list \<Rightarrow> roster \<Rightarrow>
    (py_error + string list \<times> real option list \<times> real option list) \<times> string list" where
  "get_station_locations W reqs [] = (Inr ([], [], []), reqs)"
| "get_station_locations W reqs ((key, v) # rest) =
     (case get_buoy_data W reqs v of
        (None, reqs') \<Rightarrow>
          (case get_station_locations W reqs' rest of
             (Inl e, r) \<Rightarrow> (Inl e, r)
           | (Inr (names, lats, lons), r) \<Rightarrow> (Inr (key # names, None # lats, None # lons), r))
      | (Some ds, reqs') \<Rightarrow>
          (if gps ds = [] then (Inl IndexError, reqs')
           else
             (case get_station_locations W reqs' rest of
                (Inl e, r) \<Rightarrow> (Inl e, r)
              | (Inr (names, lats, lons), r) \<Rightarrow>
                  (Inr (key # names,
                        Some (fst (snd (last (gps ds)))) # lats,
                        Some (snd (snd (last (gps ds)))) # lons), r))))"

text \<open>
  \<open>make_buoy_map\<close> puts the three lists into one table and, for every roster entry, hands
  the rows of that name to the scatter plot.
\<close>

definition make_buoy_map ::
  "world \<Rightarrow> string list \<Rightarrow> roster \<Rightarrow>
    (py_error + (string \<times> real option \<times> real option) list list) \<times> string list" where
  "make_buoy_map W reqs buoy_lookup =
     (case get_station_locations W reqs buoy_lookup of
        (Inl e, r) \<Rightarrow> (Inl e, r)
      | (Inr (names, lats, lons), r) \<Rightarrow>
          (Inr (map (\<lambda>(key, v). filter (\<lambda>(n, lat, lon). n = key) (zip names (zip lats lons)))
                  buoy_lookup), r))"

section \<open>Data frames and nearest reindexing\<close>

text \<open>
  A pandas data frame: its row index and its columns in order, every column with one
  entry per row, \<open>None\<close> for \<^verbatim>\<open>NaN\<close>.
  \<^verbatim>\<open>pd.DataFrame(ds['waveHs'].to_pandas()*3.28084, columns=[key])\<close> is \<open>to_frame key ds\<close>.
\<close>

record frame =
  index :: "instant list"
  columns :: "(string \<times> real option list) list"

definition to_frame :: "string \<Rightarrow> dataset \<Rightarrow> frame" where
  "to_frame key ds =
     \<lparr>index = map fst (wave ds),
      columns = [(key, map (\<lambda>(t, v). Some (v * 3.28084)) (wave ds))]\<rparr>"

text \<open>
  \<^verbatim>\<open>raw_df.reindex(df_index, method='nearest', limit=3)\<close> is a call into pandas; the
  definitions below follow pandas' \<^verbatim>\<open>Index.get_indexer\<close>. For every label of the target
  it computes a position in the source index, or \<open>-1\<close> (here \<open>None\<close>):
  \<^item> \<open>pad\<close> proposes the last source label at or before the target label, \<open>backfill\<close> the
    first source label at or after it. \<^verbatim>\<open>limit\<close> is the "maximum number of consecutive
    labels in target to match for inexact matches": between two source labels, only the
    first \<open>limit\<close> target labels after the earlier one are padded from it, and only the last
    \<open>limit\<close> target labels before the later one are backfilled from it. A target label equal
    to a source label always matches and is not counted.
  \<^item> \<^verbatim>\<open>nearest\<close> takes the pad proposal when it is strictly closer than the backfill
    proposal, or when there is no backfill proposal, and the backfill proposal otherwise.
    The distance of a proposal \<open>-1\<close> is computed by numpy from the last source label.
  \<^item> No \<^verbatim>\<open>tolerance\<close> is passed, so no proposal is dropped for being far away.
  \<^item> When the two indexes are equal, pandas returns the rows as they are without computing
    an indexer. Otherwise, with a method, it raises \<^verbatim>\<open>ValueError\<close> for a source index
    with a duplicate. An empty target has the empty indexer, and in an empty source nothing
    matches, whatever the order of the other index. With a limit, pandas raises
    \<^verbatim>\<open>ValueError\<close> unless both indexes are increasing.
  pandas computes \<open>pad\<close> in one walk over both increasing arrays, with a count of the
  inexact matches made from the current source label that starts again at every source
  label. \<open>pad_at\<close> states the result position by position: the inexact matches already
  made from the source label \<open>i\<close> when the walk reaches position \<open>j\<close> are the earlier
  target labels after \<open>old ! i\<close>, up to the limit. \<open>backfill_at\<close> is the same walk from the
  other end. \<open>get_indexer\<close> applies them to increasing lists only.
\<close>

definition last_le :: "instant list \<Rightarrow> instant \<Rightarrow> nat option" where
  "last_le old t =
     (let k = length (takeWhile (\<lambda>x. x \<le> t) old) in if k = 0 then None else Some (k - 1))"

definition first_ge :: "instant list \<Rightarrow> instant \<Rightarrow> nat option" where
  "first_ge old t =
     (let k = length (takeWhile (\<lambda>x. x < t) old) in if k < length old then Some k else None)"

definition pad_at :: "instant list \<Rightarrow> nat \<Rightarrow> instant list \<Rightarrow> nat \<Rightarrow> nat option" where
  "pad_at old limit new j =
     (case last_le old (new ! j) of
        None \<Rightarrow> None
      | Some i \<Rightarrow>
          if old ! i = new ! j then Some i
          else if length (filter (\<lambda>t. old ! i < t) (take j new)) < limit then Some i
          else None)"

definition backfill_at :: "instant list \<Rightarrow> nat \<Rightarrow> instant list \<Rightarrow> nat \<Rightarrow> nat option" where
  "backfill_at old limit new j =
     (case first_ge old (new ! j) of
        None \<Rightarrow> None
      | Some i \<Rightarrow>
          if old ! i = new ! j then Some i
          else if length (filter (\<lambda>t. t < old ! i) (drop (Suc j) new)) < limit then Some i
          else None)"

definition distance :: "instant list \<Rightarrow> nat option \<Rightarrow> instant \<Rightarrow> int" where
  "distance old c t = (case c of None \<Rightarrow> \<bar>last old - t\<bar> | Some i \<Rightarrow> \<bar>old ! i - t\<bar>)"

definition nearest_at :: "instant list \<Rightarrow> nat \<Rightarrow> instant list \<Rightarrow> nat \<Rightarrow> nat option" where
  "nearest_at old limit new j =
     (let l = pad_at old limit new j;
          r = backfill_at old limit new j
      in if distance old l (new ! j) < distance old r (new ! j) \<or> r = None then l else r)"

definition get_indexer :: "instant list \<Rightarrow> instant list \<Rightarrow> nat \<Rightarrow> py_error + nat option list" where
  "get_indexer old new limit =
     (if new = [] then Inr []
      else if old = [] then Inr (map (\<lambda>j. None) [0..<length new])
      else if \<not> (sorted old \<and> sorted new) then Inl ValueError
      else Inr (map (nearest_at old limit new) [0..<length new]))"

definition reindex_indexer :: "instant list \<Rightarrow> instant list \<Rightarrow> nat \<Rightarrow> py_error + nat option list" where
  "reindex_indexer old new limit =
     (if old = new then Inr (map Some [0..<length new])
      else if \<not> distinct old then Inl ValueError
      else get_indexer old new limit)"

definition take_rows :: "real option list \<Rightarrow> nat option list \<Rightarrow> real option list" where
  "take_rows col idx = map (\<lambda>c. case c of None \<Rightarrow> None | Some i \<Rightarrow> col ! i) idx"

definition reindex :: "frame \<Rightarrow> instant list \<Rightarrow> nat \<Rightarrow> py_error + frame" where
  "reindex fr target limit =
     (case reindex_indexer (index fr) target limit of
        Inl e \<Rightarrow> Inl e
      | Inr idx \<Rightarrow>
          Inr \<lparr>index = target, columns = map (\<lambda>(k, col). (k, take_rows col idx)) (columns fr)\<rparr>)"

text \<open>
  \<^verbatim>\<open>df[key] = val\<close> with a frame \<open>val\<close> on the same index as \<open>df\<close>: the one column of
  \<open>val\<close> replaces the column \<open>key\<close> or is appended; pandas raises \<^verbatim>\<open>ValueError\<close> when
  \<open>val\<close> does not have exactly one column.
  \<^verbatim>\<open>df[df.index > c]\<close> keeps the rows whose label is after \<open>c\<close>.
\<close>

definition setitem :: "frame \<Rightarrow> string \<Rightarrow> frame \<Rightarrow> py_error + frame" where
  "setitem df key val =
     (case columns val of
        [(k, col)] \<Rightarrow> Inr (df\<lparr>columns := AList.update key col (columns df)\<rparr>)
      | _ \<Rightarrow> Inl ValueError)"

definition recent_rows :: "frame \<Rightarrow> instant \<Rightarrow> frame" where
  "recent_rows df c =
     \<lparr>index = filter (\<lambda>t. c < t) (index df),
      columns = map (\<lambda>(k, col). (k, map snd (filter (\<lambda>(t, x). c < t) (zip (index df) col))))
                  (columns df)\<rparr>"

text \<open>A frame is well formed when every column has one entry per row of the index.\<close>

definition wf_frame :: "frame \<Rightarrow> bool" where
  "wf_frame df = (\<forall>(k, col) \<in> set (columns df). length col = length (index df))"

text \<open>
  A source sample \<open>i\<close> is in reach of the target position \<open>j\<close> when it is the latest
  source label at or before the target label and either equal to it or followed by fewer
  than \<open>limit\<close> earlier target labels, or the earliest source label at or after the target
  label and either equal to it or preceded by fewer than \<open>limit\<close> later target labels. The
  time between the two labels plays no part.
\<close>

definition in_reach :: "instant list \<Rightarrow> instant list \<Rightarrow> nat \<Rightarrow> nat \<Rightarrow> nat \<Rightarrow> bool" where
  "in_reach old new limit i j =
     (i < length old \<and>
      ((old ! i \<le> new ! j \<and> (\<forall>k<length old. old ! k \<le> new ! j \<longrightarrow> old ! k \<le> old ! i) \<and>
        (old ! i = new ! j \<or> length (filter (\<lambda>t. old ! i < t) (take j new)) < limit)) \<or>
       (new ! j \<le> old ! i \<and> (\<forall>k<length old. new ! j \<le> old ! k \<longrightarrow> old ! i \<le> old ! k) \<and>
        (old ! i = new ! j \<or> length (filter (\<lambda>t. t < old ! i) (drop (Suc j) new)) < limit))))"

section \<open>The density matrix\<close>

text \<open>
  \<^verbatim>\<open>
  def make_density_plots(buoy_lookup):
      for i, (key, value) in enumerate(buoy_lookup.items()):
          ds = get_buoy_data(value)
          if i == 0:
              df = pd.DataFrame(ds['waveHs'].to_pandas()*3.28084,columns=[key])
              df_index = df.index
          else:
              raw_df = pd.DataFrame(ds['waveHs'].to_pandas()*3.28084,columns=[key])
              df[key] = raw_df.reindex(df_index,method='nearest',limit=3)
      df_recent = df[df.index > datetime.today() - timedelta(days=30)]
      ...
  \<close>
  \<open>make_density_plots\<close> is the iteration \<open>i = 0\<close> and what follows the loop;
  \<open>density_loop\<close> is the iterations \<open>i > 0\<close>. There is no test of \<^verbatim>\<open>ds is None\<close>:
  subscripting \<^verbatim>\<open>None\<close> raises \<^verbatim>\<open>TypeError\<close>. With an empty roster the loop body never
  runs and \<^verbatim>\<open>df\<close> is unbound after it. The result is the pair of \<^verbatim>\<open>df\<close> (its index
  gives the title of the plot) and \<^verbatim>\<open>df_recent\<close> (the plotted matrix).
\<close>

fun density_loop ::
  "world \<Rightarrow> string list \<Rightarrow> frame \<Rightarrow> instant list \<Rightarrow> roster \<Rightarrow> (py_error + frame) \<times> string list" where
  "density_loop W reqs df df_index [] = (Inr df, reqs)"
| "density_loop W reqs df df_index ((key, v) # rest) =
     (case get_buoy_data W reqs v of
        (None, reqs') \<Rightarrow> (Inl TypeError, reqs')
      | (Some ds, reqs') \<Rightarrow>
          (case reindex (to_frame key ds) df_index 3 of
             Inl e \<Rightarrow> (Inl e, reqs')
           | Inr aligned \<Rightarrow>
               (case setitem df key aligned of
                  Inl e \<Rightarrow> (Inl e, reqs')
                | Inr df' \<Rightarrow> density_loop W reqs' df' df_index rest)))"

definition make_density_plots ::
  "world \<Rightarrow> string list \<Rightarrow> roster \<Rightarrow> (py_error + frame \<times> frame) \<times> string list" where
  "make_density_plots W reqs buoy_lookup =
     (case buoy_lookup of
        [] \<Rightarrow> (Inl UnboundLocalError, reqs)
      | (key, v) # rest \<Rightarrow>
          (case get_buoy_data W reqs v of
             (None, reqs') \<Rightarrow> (Inl TypeError, reqs')
           | (Some ds, reqs') \<Rightarrow>
               (case density_loop W reqs' (to_frame key ds) (index (to_frame key ds)) rest of
                  (Inl e, r) \<Rightarrow> (Inl e, r)
                | (Inr df, r) \<Rightarrow> (Inr (df, recent_rows df (now W - days 30)), r))))"

section \<open>The run\<close>

text \<open>
  \<^verbatim>\<open>
  make_timeseries_plots(buoy_lookup)
  make_buoy_map(buoy_lookup)
  make_density_plots(buoy_lookup)
  \<close>
  An exception of one builder ends the run: nothing catches it.
\<close>

definition buoy_lookup :: roster where
  "buoy_lookup =
     [(''Humboldt Bay'', ''168''), (''Cape Mendocino'', ''094''), (''Point Reyes'', ''029''),
      (''SF Bar'', ''142''), (''Monterey Bay'', ''185''), (''Cabrillo Point'', ''158''),
      (''Point Sur'', ''157''), (''Diablo Canyon'', ''076'')]"

definition run ::
  "world \<Rightarrow> roster \<Rightarrow>
    (py_error + panel list \<times> (string \<times> real option \<times> real option) list list \<times> frame \<times> frame)
      \<times> string list" where
  "run W r =
     (case make_timeseries_plots W [] r of
        (Inl e, q) \<Rightarrow> (Inl e, q)
      | (Inr panels, q1) \<Rightarrow>
          (case make_buoy_map W q1 r of
             (Inl e, q) \<Rightarrow> (Inl e, q)
           | (Inr coords, q2) \<Rightarrow>
               (case make_density_plots W q2 r of
                  (Inl e, q) \<Rightarrow> (Inl e, q)
                | (Inr (df, df_recent), q3) \<Rightarrow> (Inr (panels, coords, df, df_recent), q3))))"

definition main :: "world \<Rightarrow> (py_error + panel list \<times> (string \<times> real option \<times> real option) list list \<times> frame \<times> frame) \<times> string list" where
  "main W = run W buoy_lookup"

section \<open>Example inputs\<close>

text \<open>
  Two stations, a dataset with samples in the last two days, and a dataset whose samples
  are fifteen to twelve days old; the clock stands at day 100. In \<open>world_B_down\<close> every
  request for station 002 fails; in \<open>world_A_down\<close> every request for station 001 fails;
  in \<open>world_flaky\<close> only the second request of the run fails.
\<close>

definition roster_AB :: roster where
  "roster_AB = [(''A'', ''001''), (''B'', ''002'')]"

definition ds_recent :: dataset where
  "ds_recent =
     \<lparr>wave = [(days 99, 1.5), (days 100, 2)],
      gps = [(days 98, 36.5, -122), (days 99, 36.75, -122.25)]\<rparr>"

definition ds_stale :: dataset where
  "ds_stale =
     \<lparr>wave = [(days 85, 1.5), (days 88, 2)],
      gps = [(days 98, 36.5, -122), (days 99, 36.75, -122.25)]\<rparr>"

definition world_up :: world where
  "world_up = \<lparr>respond = (\<lambda>n url. Inr ds_recent), now = days 100\<rparr>"

definition world_B_down :: world where
  "world_B_down =
     \<lparr>respond = (\<lambda>n url. if url = request_url ''002'' then Inl Timeout else Inr ds_recent),
      now = days 100\<rparr>"

definition world_A_down :: world where
  "world_A_down =
     \<lparr>respond = (\<lambda>n url. if url = request_url ''001'' then Inl NetworkError else Inr ds_recent),
      now = days 100\<rparr>"

definition world_flaky :: world where
  "world_flaky =
     \<lparr>respond = (\<lambda>n url. if n = 1 then Inl Timeout else Inr ds_recent), now = days 100\<rparr>"

definition world_stale :: world where
  "world_stale = \<lparr>respond = (\<lambda>n url. Inr ds_stale), now = days 100\<rparr>"

text \<open>
  In \<open>world_mixed\<close> station 002 answers with the old samples of \<open>ds_stale\<close> and every
  other station with \<open>ds_recent\<close>. \<open>ds_single\<close> has one sample, at second 100, and
  \<open>axis7\<close> is an axis of seven instants around it, \<open>axis5\<close> the five instants up to it. \<open>ds_dup\<close> has two samples with the same
  timestamp.
\<close>

definition world_mixed :: world where
  "world_mixed =
     \<lparr>respond = (\<lambda>n url. if url = request_url ''002'' then Inr ds_stale else Inr ds_recent),
      now = days 100\<rparr>"





section \<open>Fetching: one attempt, one kind of failure\<close>

lemma get_buoy_data_log: "snd (get_buoy_data W reqs b) = reqs @ [request_url b]"
  by (simp add: get_buoy_data_def split: sum.splits)

lemma length_fetches: "length (fetches W reqs r) = length r"
  by (induction r arbitrary: reqs) auto

text \<open>
  Claim C9. For every station identifier \<open>b\<close>, \<open>get_buoy_data\<close> makes exactly one request
  (the request list grows by the one URL built from \<open>b\<close>); it returns \<open>None\<close> exactly when
  that request failed, whatever the failure was, and the dataset exactly when it succeeded.
  Its result type has no third outcome and carries no failure cause.
\<close>

theorem get_buoy_data_one_attempt:
  "snd (get_buoy_data W reqs b) = reqs @ [request_url b] \<and>
   (fst (get_buoy_data W reqs b) = None) = (\<exists>e. respond W (length reqs) (request_url b) = Inl e) \<and>
   (\<forall>ds. (fst (get_buoy_data W reqs b) = Some ds) = (respond W (length reqs) (request_url b) = Inr ds))"
  by (cases "respond W (length reqs) (request_url b)") (simp_all add: get_buoy_data_def)


section \<open>One pass over the roster\<close>

lemma fetches_Cons:
  "fetches W reqs ((key, v) # rest) =
     fst (get_buoy_data W reqs v) # fetches W (reqs @ [request_url v]) rest"
  by (simp add: get_buoy_data_log)

lemma urls_Cons: "urls ((key, v) # rest) = request_url v # urls rest"
  by (simp add: urls_def)

lemma get_buoy_data_cases:
  "get_buoy_data W reqs v = (fst (get_buoy_data W reqs v), reqs @ [request_url v])"
  by (metis get_buoy_data_log prod.collapse)

lemma gsl_Inr:
  "get_station_locations W reqs r = (Inr (names, lats, lons), q) \<Longrightarrow>
     names = map fst r \<and>
     lats = map (map_option (\<lambda>ds. fst (snd (last (gps ds))))) (fetches W reqs r) \<and>
     lons = map (map_option (\<lambda>ds. snd (snd (last (gps ds))))) (fetches W reqs r) \<and>
     q = reqs @ urls r \<and>
     (\<forall>ds. Some ds \<in> set (fetches W reqs r) \<longrightarrow> gps ds \<noteq> [])"
proof (induction r arbitrary: reqs names lats lons q)
  case Nil
  then show ?case by (simp add: urls_def)
next
  case (Cons a rest)
  obtain key v where a: "a = (key, v)" by (cases a)
  obtain o1 where g: "get_buoy_data W reqs v = (o1, reqs @ [request_url v])"
    using get_buoy_data_cases by blast
  show ?case
  proof (cases o1)
    case None
    with Cons.prems a g obtain n' la' lo' where
      rec: "get_station_locations W (reqs @ [request_url v]) rest = (Inr (n', la', lo'), q)"
      and out: "names = key # n'" "lats = None # la'" "lons = None # lo'"
      by (auto split: prod.splits sum.splits)
    from Cons.IH[OF rec] out a g None show ?thesis
      by (simp add: urls_Cons)
  next
    case (Some ds)
    with Cons.prems a g have ne: "gps ds \<noteq> []"
      by (auto split: if_splits)
    with Some Cons.prems a g obtain n' la' lo' where
      rec: "get_station_locations W (reqs @ [request_url v]) rest = (Inr (n', la', lo'), q)"
      and out: "names = key # n'" "lats = Some (fst (snd (last (gps ds)))) # la'"
        "lons = Some (snd (snd (last (gps ds)))) # lo'"
      by (auto split: prod.splits sum.splits)
    from Cons.IH[OF rec] out a g Some ne show ?thesis
      by (auto simp add: urls_Cons)
  qed
qed

lemma gsl_total:
  "(\<forall>ds. Some ds \<in> set (fetches W reqs r) \<longrightarrow> gps ds \<noteq> []) \<Longrightarrow>
     \<exists>out q. get_station_locations W reqs r = (Inr out, q)"
proof (induction r arbitrary: reqs)
  case Nil
  then show ?case by simp
next
  case (Cons a rest)
  obtain key v where a: "a = (key, v)" by (cases a)
  obtain o1 where g: "get_buoy_data W reqs v = (o1, reqs @ [request_url v])"
    using get_buoy_data_cases by blast
  from Cons.prems a g
  have "\<forall>ds. Some ds \<in> set (fetches W (reqs @ [request_url v]) rest) \<longrightarrow> gps ds \<noteq> []"
    by simp
  from Cons.IH[OF this] obtain out q where
    rec: "get_station_locations W (reqs @ [request_url v]) rest = (Inr out, q)" by blast
  obtain n' la' lo' where out: "out = (n', la', lo')" by (cases out)
  show ?case
  proof (cases o1)
    case None
    with a g rec out show ?thesis by simp
  next
    case (Some ds)
    with Cons.prems a g have "gps ds \<noteq> []" by simp
    with Some a g rec out show ?thesis by simp
  qed
qed

lemma plot_buoy_plottable:
  "plottable W ds = (\<exists>ax d m. plot_buoy W ds [] True = Inr (Ret3 ax d m))"
proof
  assume p: "plottable W ds"
  then obtain lm where lm: "sel (wave ds) (now W - days 10) (now W) = Inr lm"
    by (cases "sel (wave ds) (now W - days 10) (now W)") (simp_all add: plottable_def)
  with p obtain ld where ld: "sel (wave ds) (now W - days 1) (now W) = Inr ld"
    by (cases "sel (wave ds) (now W - days 1) (now W)") (simp_all add: plottable_def)
  from p lm have "lm \<noteq> []" "Max (set (map snd lm)) \<noteq> 0" by (simp_all add: plottable_def)
  with lm ld have "plot_buoy W ds [] True =
      Inr (Ret3 ([map (\<lambda>(t, v). (t, v / 0.3048)) lm] @ [map (\<lambda>(t, v). (t, v / 0.3048)) ld])
             ld (Max (set (map snd lm)) / 0.3048))"
    by (simp add: plot_buoy_def Let_def)
  then show "\<exists>ax d m. plot_buoy W ds [] True = Inr (Ret3 ax d m)" by blast
next
  assume "\<exists>ax d m. plot_buoy W ds [] True = Inr (Ret3 ax d m)"
  then show "plottable W ds"
    by (auto simp add: plottable_def plot_buoy_def Let_def split: sum.splits if_splits)
qed

lemma plot_buoy_max:
  "plot_buoy W ds [] True = Inr (Ret3 ax d m) \<Longrightarrow> plottable W ds"
  using plot_buoy_plottable by blast

lemma ts_Inr:
  "timeseries_loop W reqs r = (Inr ps, q) \<Longrightarrow>
     map panel_label ps = map fst r \<and>
     map is_offline ps = map (\<lambda>x. x = None) (fetches W reqs r) \<and>
     q = reqs @ urls r \<and>
     (\<forall>ds. Some ds \<in> set (fetches W reqs r) \<longrightarrow> plottable W ds)"
proof (induction r arbitrary: reqs ps q)
  case Nil
  then show ?case by (simp add: urls_def)
next
  case (Cons a rest)
  obtain key v where a: "a = (key, v)" by (cases a)
  obtain o1 where g: "get_buoy_data W reqs v = (o1, reqs @ [request_url v])"
    using get_buoy_data_cases by blast
  show ?case
  proof (cases o1)
    case None
    with Cons.prems a g obtain ps' where
      rec: "timeseries_loop W (reqs @ [request_url v]) rest = (Inr ps', q)"
      and out: "ps = Offline_panel key v # ps'"
      by (auto split: prod.splits sum.splits)
    from Cons.IH[OF rec] out a g None show ?thesis
      by (simp add: urls_Cons)
  next
    case (Some ds)
    with Cons.prems a g obtain ax d m ps' where
      pb: "plot_buoy W ds [] True = Inr (Ret3 ax d m)"
      and rec: "timeseries_loop W (reqs @ [request_url v]) rest = (Inr ps', q)"
      and out: "ps = Online_panel key v ax m # ps'"
      by (auto split: prod.splits sum.splits plot_return.splits)
    from Cons.IH[OF rec] out a g Some plot_buoy_max[OF pb] show ?thesis
      by (auto simp add: urls_Cons)
  qed
qed

lemma ts_total:
  "(\<forall>ds. Some ds \<in> set (fetches W reqs r) \<longrightarrow> plottable W ds) \<Longrightarrow>
     \<exists>ps q. timeseries_loop W reqs r = (Inr ps, q)"
proof (induction r arbitrary: reqs)
  case Nil
  then show ?case by simp
next
  case (Cons a rest)
  obtain key v where a: "a = (key, v)" by (cases a)
  obtain o1 where g: "get_buoy_data W reqs v = (o1, reqs @ [request_url v])"
    using get_buoy_data_cases by blast
  from Cons.prems a g
  have "\<forall>ds. Some ds \<in> set (fetches W (reqs @ [request_url v]) rest) \<longrightarrow> plottable W ds"
    by simp
  from Cons.IH[OF this] obtain ps q where
    rec: "timeseries_loop W (reqs @ [request_url v]) rest = (Inr ps, q)" by blast
  show ?case
  proof (cases o1)
    case None
    with a g rec show ?thesis by simp
  next
    case (Some ds)
    with Cons.prems a g have "plottable W ds" by simp
    then obtain ax d m where "plot_buoy W ds [] True = Inr (Ret3 ax d m)"
      using plot_buoy_plottable by blast
    with Some a g rec show ?thesis by simp
  qed
qed

lemma make_timeseries_plots_loop:
  "2 \<le> length r \<Longrightarrow> make_timeseries_plots W reqs r = timeseries_loop W reqs r"
  by (cases r; cases "tl r") (auto simp add: make_timeseries_plots_def split: list.splits)

lemma make_timeseries_plots_Inr:
  assumes "make_timeseries_plots W reqs r = (Inr ps, q)"
  shows "2 \<le> length r \<and> timeseries_loop W reqs r = (Inr ps, q)"
proof -
  from assms have "2 \<le> length r"
    by (cases r; cases "tl r") (auto simp add: make_timeseries_plots_def split: list.splits)
  with assms show ?thesis by (simp add: make_timeseries_plots_loop)
qed

lemma density_loop_reqs:
  "density_loop W reqs df ix r = (Inr out, q) \<Longrightarrow>
     q = reqs @ urls r \<and> (\<forall>x \<in> set (fetches W reqs r). x \<noteq> None)"
proof (induction r arbitrary: reqs df)
  case Nil
  then show ?case by (simp add: urls_def)
next
  case (Cons a rest)
  obtain key v where a: "a = (key, v)" by (cases a)
  obtain o1 where g: "get_buoy_data W reqs v = (o1, reqs @ [request_url v])"
    using get_buoy_data_cases by blast
  from Cons.prems a g obtain ds where o1: "o1 = Some ds"
    by (cases o1) auto
  with Cons.prems a g obtain df' where
    rec: "density_loop W (reqs @ [request_url v]) df' ix rest = (Inr out, q)"
    by (auto split: sum.splits)
  from Cons.IH[OF rec] a g o1 show ?case
    by (simp add: urls_Cons)
qed

lemma make_density_plots_reqs:
  "make_density_plots W reqs r = (Inr out, q) \<Longrightarrow>
     q = reqs @ urls r \<and> r \<noteq> [] \<and> (\<forall>x \<in> set (fetches W reqs r). x \<noteq> None)"
proof (cases r)
  case Nil
  assume "make_density_plots W reqs r = (Inr out, q)"
  with Nil show ?thesis by (simp add: make_density_plots_def)
next
  case (Cons a rest)
  assume m: "make_density_plots W reqs r = (Inr out, q)"
  obtain key v where a: "a = (key, v)" by (cases a)
  obtain o1 where g: "get_buoy_data W reqs v = (o1, reqs @ [request_url v])"
    using get_buoy_data_cases by blast
  from m Cons a g obtain ds where o1: "o1 = Some ds"
    by (cases o1) (auto simp add: make_density_plots_def)
  with m Cons a g obtain df where
    "density_loop W (reqs @ [request_url v]) (to_frame key ds) (index (to_frame key ds)) rest = (Inr df, q)"
    by (auto simp add: make_density_plots_def split: prod.splits sum.splits)
  from density_loop_reqs[OF this] Cons a g o1 show ?thesis
    by (simp add: urls_Cons)
qed

lemma make_buoy_map_reqs:
  "make_buoy_map W reqs r = (Inr out, q) \<Longrightarrow> q = reqs @ urls r"
  by (auto simp add: make_buoy_map_def split: prod.splits sum.splits dest: gsl_Inr)


section \<open>Example runs\<close>

lemma url_neq: "(request_url ''001'' = request_url ''002'') = False"
  "(request_url ''002'' = request_url ''001'') = False"
  by (simp_all add: request_url_def)

lemma ex_fetches_B_down: "fetches world_B_down reqs roster_AB = [Some ds_recent, None]"
  by (simp add: roster_AB_def world_B_down_def get_buoy_data_def url_neq)

lemma ex_gsl_B_down:
  "get_station_locations world_B_down [] roster_AB =
     (Inr ([''A'', ''B''], [Some 36.75, None], [Some (-122.25), None]),
      [request_url ''001'', request_url ''002''])"
  by (simp add: roster_AB_def world_B_down_def get_buoy_data_def url_neq ds_recent_def)

lemma ex_sel_recent10: "sel (wave ds_recent) (days 100 - days 10) (days 100) = Inr (wave ds_recent)"
  by (simp add: sel_def get_slice_bound_def ds_recent_def days_def Let_def)

lemma ex_sel_recent1: "sel (wave ds_recent) (days 100 - days 1) (days 100) = Inr (wave ds_recent)"
  by (simp add: sel_def get_slice_bound_def ds_recent_def days_def Let_def)

lemma ex_sel_stale10: "sel (wave ds_stale) (days 100 - days 10) (days 100) = Inr []"
  by (simp add: sel_def get_slice_bound_def ds_stale_def days_def Let_def)

lemma ex_plottable_recent: "now W = days 100 \<Longrightarrow> plottable W ds_recent"
  by (simp add: plottable_def ex_sel_recent10 ex_sel_recent1) (simp add: ds_recent_def)

lemma ex_ts_B_down:
  "\<exists>ax m. make_timeseries_plots world_B_down [] roster_AB =
     (Inr [Online_panel ''A'' ''001'' ax m, Offline_panel ''B'' ''002''],
      [request_url ''001'', request_url ''002''])"
proof -
  have "plottable world_B_down ds_recent"
    by (rule ex_plottable_recent) (simp add: world_B_down_def)
  then obtain ax d m where "plot_buoy world_B_down ds_recent [] True = Inr (Ret3 ax d m)"
    using plot_buoy_plottable by blast
  then show ?thesis
    by (simp add: make_timeseries_plots_def roster_AB_def get_buoy_data_def url_neq
        world_B_down_def)
qed

lemma run_reqs:
  "run W r = (Inr out, q) \<Longrightarrow> q = urls r @ urls r @ urls r"
proof -
  assume a: "run W r = (Inr out, q)"
  then obtain ps q1 where t: "make_timeseries_plots W [] r = (Inr ps, q1)"
    by (auto simp add: run_def split: prod.splits sum.splits)
  with a obtain coords q2 where m: "make_buoy_map W q1 r = (Inr coords, q2)"
    by (auto simp add: run_def split: prod.splits sum.splits)
  with a t obtain dens where d: "make_density_plots W q2 r = (Inr dens, q)"
    by (auto simp add: run_def split: prod.splits sum.splits)
  from make_timeseries_plots_Inr[OF t] have "timeseries_loop W [] r = (Inr ps, q1)" by simp
  from ts_Inr[OF this] make_buoy_map_reqs[OF m] make_density_plots_reqs[OF d]
  show ?thesis by simp
qed

lemma ex_ts_flaky:
  "\<exists>ax m. make_timeseries_plots world_flaky [] roster_AB =
     (Inr [Online_panel ''A'' ''001'' ax m, Offline_panel ''B'' ''002''],
      [request_url ''001'', request_url ''002''])"
proof -
  have "plottable world_flaky ds_recent"
    by (rule ex_plottable_recent) (simp add: world_flaky_def)
  then obtain ax d m where "plot_buoy world_flaky ds_recent [] True = Inr (Ret3 ax d m)"
    using plot_buoy_plottable by blast
  then show ?thesis
    by (simp add: make_timeseries_plots_def roster_AB_def get_buoy_data_def world_flaky_def)
qed

lemma ex_map_flaky:
  "make_buoy_map world_flaky [request_url ''001'', request_url ''002''] roster_AB =
     (Inr [[(''A'', Some 36.75, Some (-122.25))], [(''B'', Some 36.75, Some (-122.25))]],
      [request_url ''001'', request_url ''002'', request_url ''001'', request_url ''002''])"
  by (simp add: make_buoy_map_def roster_AB_def get_buoy_data_def world_flaky_def ds_recent_def)

lemma ex_density_flaky:
  "\<exists>df dfr. make_density_plots world_flaky
       [request_url ''001'', request_url ''002'', request_url ''001'', request_url ''002'']
       roster_AB =
     (Inr (df, dfr),
      [request_url ''001'', request_url ''002'', request_url ''001'', request_url ''002'',
       request_url ''001'', request_url ''002''])"
  by (simp add: make_density_plots_def roster_AB_def get_buoy_data_def world_flaky_def
      reindex_def reindex_indexer_def to_frame_def setitem_def)

lemma ex_run_flaky:
  "\<exists>ax m df dfr. run world_flaky roster_AB =
     (Inr ([Online_panel ''A'' ''001'' ax m, Offline_panel ''B'' ''002''],
           [[(''A'', Some 36.75, Some (-122.25))], [(''B'', Some 36.75, Some (-122.25))]],
           df, dfr),
      [request_url ''001'', request_url ''002'', request_url ''001'', request_url ''002'',
       request_url ''001'', request_url ''002''])"
proof -
  from ex_ts_flaky obtain ax m where t: "make_timeseries_plots world_flaky [] roster_AB =
     (Inr [Online_panel ''A'' ''001'' ax m, Offline_panel ''B'' ''002''],
      [request_url ''001'', request_url ''002''])" by blast
  from ex_density_flaky obtain df dfr where d: "make_density_plots world_flaky
       [request_url ''001'', request_url ''002'', request_url ''001'', request_url ''002'']
       roster_AB =
     (Inr (df, dfr),
      [request_url ''001'', request_url ''002'', request_url ''001'', request_url ''002'',
       request_url ''001'', request_url ''002''])" by blast
  show ?thesis by (simp add: run_def t ex_map_flaky d)
qed

section \<open>Every roster entry, once, in order\<close>

text \<open>
  Claim C7. The claim asks, for every roster and every pattern of fetch outcomes, for one
  status and one panel per roster entry in roster order. With a roster of the one station A
  and a successful fetch, \<open>make_timeseries_plots\<close> makes its request and raises
  \<^verbatim>\<open>TypeError\<close>; with the empty roster it raises \<^verbatim>\<open>ValueError\<close>; and with two stations
  that both answer with the old samples of \<open>ds_stale\<close> it raises \<^verbatim>\<open>ValueError\<close> at the
  first station. In none of the three runs is any station offline, and in none is a panel
  or a status produced.
\<close>

theorem timeseries_aborts_with_all_online:
  "fetches world_up [] [(''A'', ''001'')] = [Some ds_recent] \<and>
   make_timeseries_plots world_up [] [(''A'', ''001'')] = (Inl TypeError, [request_url ''001'']) \<and>
   make_timeseries_plots world_up [] [] = (Inl ValueError, []) \<and>
   fetches world_stale [] roster_AB = [Some ds_stale, Some ds_stale] \<and>
   make_timeseries_plots world_stale [] roster_AB = (Inl ValueError, [request_url ''001''])"
  by (simp add: make_timeseries_plots_def get_buoy_data_def world_up_def world_stale_def
      roster_AB_def plot_buoy_def ex_sel_stale10)

section \<open>Station positions\<close>

lemma sorted_le_last: "sorted xs \<Longrightarrow> x \<in> set xs \<Longrightarrow> x \<le> last (xs :: int list)"
  by (induction xs) auto

text \<open>
  Claim C8. In the result of \<open>get_station_locations\<close>, the \<open>i\<close>-th position carries the
  name of the \<open>i\<close>-th roster entry; when that entry's fetch failed, its latitude and
  longitude are missing (\<open>None\<close>, not a number); when the fetch succeeded, the dataset has
  a GPS fix and the latitude and longitude are those of the last row of its GPS axis, which
  is the most recent fix when the axis is in time order.
\<close>

theorem positions_from_last_fix:
  assumes "get_station_locations W reqs r = (Inr (names, lats, lons), q)" and "i < length r"
  shows "names ! i = fst (r ! i) \<and>
     (case fetches W reqs r ! i of
        None \<Rightarrow> lats ! i = None \<and> lons ! i = None
      | Some ds \<Rightarrow>
          gps ds \<noteq> [] \<and>
          lats ! i = Some (fst (snd (last (gps ds)))) \<and>
          lons ! i = Some (snd (snd (last (gps ds)))) \<and>
          (sorted (map fst (gps ds)) \<longrightarrow> (\<forall>g \<in> set (gps ds). fst g \<le> fst (last (gps ds)))))"
proof -
  note g = gsl_Inr[OF assms(1)]
  have len: "i < length (fetches W reqs r)" using assms(2) by (simp add: length_fetches)
  have n: "names ! i = fst (r ! i)" using g assms(2) by simp
  show ?thesis
  proof (cases "fetches W reqs r ! i")
    case None
    with g len n show ?thesis by simp
  next
    case (Some ds)
    with len have mem: "Some ds \<in> set (fetches W reqs r)" by (metis nth_mem)
    with g have ne: "gps ds \<noteq> []" by blast
    have "fst g' \<le> fst (last (gps ds))" if "sorted (map fst (gps ds))" "g' \<in> set (gps ds)" for g'
    proof -
      from that have "fst g' \<le> last (map fst (gps ds))" by (intro sorted_le_last) auto
      with ne show ?thesis by (simp add: last_map)
    qed
    with g len n Some ne show ?thesis by simp
  qed
qed

theorem positions_from_last_fix_witness:
  "get_station_locations world_B_down [] roster_AB =
     (Inr ([''A'', ''B''], [Some 36.75, None], [Some (-122.25), None]),
      [request_url ''001'', request_url ''002'']) \<and>
   (0::nat) < length roster_AB \<and> (1::nat) < length roster_AB \<and>
   fetches world_B_down [] roster_AB = [Some ds_recent, None] \<and>
   last (gps ds_recent) = (days 99, 36.75, -122.25) \<and>
   sorted (map fst (gps ds_recent)) \<and>
   [Some 36.75, None] ! 0 = Some (fst (snd (last (gps ds_recent)))) \<and>
   [Some (-122.25), None] ! 0 = Some (snd (snd (last (gps ds_recent)))) \<and>
   [Some 36.75, None :: real option] ! 1 = None"
  using positions_from_last_fix[OF ex_gsl_B_down, of 0] positions_from_last_fix[OF ex_gsl_B_down, of 1]
    ex_gsl_B_down ex_fetches_B_down[of "[]"]
  by (simp add: roster_AB_def ds_recent_def days_def)


section \<open>Three builders, three fetches\<close>

text \<open>
  Claim C10. Each of the three builders, when it returns, has made exactly one request per
  roster entry, in roster order, after the requests made before it; a run that completes has
  made three requests per roster entry. Nothing fetched by one builder reaches another: in
  the run of \<open>world_flaky\<close> over the stations A and B, which completes, the time-series
  builder draws B as offline while the map builder has coordinates for B.
\<close>

theorem builders_fetch_independently:
  "(make_timeseries_plots W reqs r = (Inr ps, q1) \<longrightarrow> q1 = reqs @ urls r) \<and>
   (make_buoy_map W reqs r = (Inr coords, q2) \<longrightarrow> q2 = reqs @ urls r) \<and>
   (make_density_plots W reqs r = (Inr dens, q3) \<longrightarrow> q3 = reqs @ urls r) \<and>
   (run W r = (Inr out, q) \<longrightarrow> q = urls r @ urls r @ urls r) \<and>
   length (urls r) = length r \<and>
   (\<exists>ax m df dfr q'. run world_flaky roster_AB =
      (Inr ([Online_panel ''A'' ''001'' ax m, Offline_panel ''B'' ''002''],
            [[(''A'', Some 36.75, Some (-122.25))], [(''B'', Some 36.75, Some (-122.25))]],
            df, dfr), q'))"
proof (intro conjI impI)
  assume "make_timeseries_plots W reqs r = (Inr ps, q1)"
  from make_timeseries_plots_Inr[OF this] have "timeseries_loop W reqs r = (Inr ps, q1)" by simp
  from ts_Inr[OF this] show "q1 = reqs @ urls r" by simp
next
  assume "make_buoy_map W reqs r = (Inr coords, q2)"
  then show "q2 = reqs @ urls r" by (rule make_buoy_map_reqs)
next
  assume "make_density_plots W reqs r = (Inr dens, q3)"
  from make_density_plots_reqs[OF this] show "q3 = reqs @ urls r" by simp
next
  assume "run W r = (Inr out, q)"
  then show "q = urls r @ urls r @ urls r" by (rule run_reqs)
next
  show "length (urls r) = length r" by (simp add: urls_def)
next
  show "\<exists>ax m df dfr q'. run world_flaky roster_AB =
      (Inr ([Online_panel ''A'' ''001'' ax m, Offline_panel ''B'' ''002''],
            [[(''A'', Some 36.75, Some (-122.25))], [(''B'', Some 36.75, Some (-122.25))]],
            df, dfr), q')"
    using ex_run_flaky by blast
qed

theorem builders_fetch_independently_witness:
  "(\<exists>ps. make_timeseries_plots world_flaky [] roster_AB = (Inr ps, [] @ urls roster_AB)) \<and>
   (\<exists>coords. make_buoy_map world_flaky (urls roster_AB) roster_AB =
      (Inr coords, urls roster_AB @ urls roster_AB)) \<and>
   (\<exists>dens. make_density_plots world_flaky (urls roster_AB @ urls roster_AB) roster_AB =
      (Inr dens, (urls roster_AB @ urls roster_AB) @ urls roster_AB)) \<and>
   (\<exists>out. run world_flaky roster_AB =
      (Inr out, urls roster_AB @ urls roster_AB @ urls roster_AB)) \<and>
   urls roster_AB = [request_url ''001'', request_url ''002''] \<and>
   length (urls roster_AB) = length roster_AB"
proof -
  have u: "urls roster_AB = [request_url ''001'', request_url ''002'']"
    by (simp add: urls_def roster_AB_def)
  from ex_ts_flaky obtain ax m where t: "make_timeseries_plots world_flaky [] roster_AB =
     (Inr [Online_panel ''A'' ''001'' ax m, Offline_panel ''B'' ''002''],
      [request_url ''001'', request_url ''002''])" by blast
  from ex_density_flaky obtain df dfr where d: "make_density_plots world_flaky
       [request_url ''001'', request_url ''002'', request_url ''001'', request_url ''002'']
       roster_AB =
     (Inr (df, dfr),
      [request_url ''001'', request_url ''002'', request_url ''001'', request_url ''002'',
       request_url ''001'', request_url ''002''])" by blast
  from ex_run_flaky obtain ax' m' df' dfr' where r: "run world_flaky roster_AB =
     (Inr ([Online_panel ''A'' ''001'' ax' m', Offline_panel ''B'' ''002''],
           [[(''A'', Some 36.75, Some (-122.25))], [(''B'', Some 36.75, Some (-122.25))]],
           df', dfr'),
      [request_url ''001'', request_url ''002'', request_url ''001'', request_url ''002'',
       request_url ''001'', request_url ''002''])" by blast
  show ?thesis
    using builders_fetch_independently[of world_flaky "[]" roster_AB
        "[Online_panel ''A'' ''001'' ax m, Offline_panel ''B'' ''002'']"
        "[request_url ''001'', request_url ''002'']"]
      builders_fetch_independently[of world_flaky "[request_url ''001'', request_url ''002'']"
        roster_AB ps q1
        "[[(''A'', Some 36.75, Some (-122.25))], [(''B'', Some 36.75, Some (-122.25))]]"
        "[request_url ''001'', request_url ''002'', request_url ''001'', request_url ''002'']"]
      builders_fetch_independently[of world_flaky
        "[request_url ''001'', request_url ''002'', request_url ''001'', request_url ''002'']"
        roster_AB ps q1 coords q2 "(df, dfr)"
        "[request_url ''001'', request_url ''002'', request_url ''001'', request_url ''002'',
          request_url ''001'', request_url ''002'']"]
      builders_fetch_independently[of world_flaky reqs roster_AB ps q1 coords q2 dens q3
        "([Online_panel ''A'' ''001'' ax' m', Offline_panel ''B'' ''002''],
           [[(''A'', Some 36.75, Some (-122.25))], [(''B'', Some 36.75, Some (-122.25))]],
           df', dfr')"
        "[request_url ''001'', request_url ''002'', request_url ''001'', request_url ''002'',
          request_url ''001'', request_url ''002'']"]
      t ex_map_flaky d r u
    by simp
qed

section \<open>An offline station and the density matrix\<close>

text \<open>
  Claim C1. The claim asks that a station whose fetch fails is left out of the density matrix
  and that the builder goes on with the other stations. With station B offline, the
  time-series builder and \<open>get_station_locations\<close> return, but \<open>make_density_plots\<close> raises
  \<^verbatim>\<open>TypeError\<close> at B and produces no matrix.
\<close>

theorem density_aborts_on_offline_station:
  "fetches world_B_down [] roster_AB = [Some ds_recent, None] \<and>
   make_density_plots world_B_down [] roster_AB =
     (Inl TypeError, [request_url ''001'', request_url ''002'']) \<and>
   (\<exists>ps q. make_timeseries_plots world_B_down [] roster_AB = (Inr ps, q)) \<and>
   (\<exists>out q. get_station_locations world_B_down [] roster_AB = (Inr out, q))"
proof (intro conjI)
  show "fetches world_B_down [] roster_AB = [Some ds_recent, None]"
    by (rule ex_fetches_B_down)
  show "make_density_plots world_B_down [] roster_AB =
     (Inl TypeError, [request_url ''001'', request_url ''002''])"
    by (simp add: make_density_plots_def roster_AB_def get_buoy_data_def url_neq world_B_down_def)
  show "\<exists>ps q. make_timeseries_plots world_B_down [] roster_AB = (Inr ps, q)"
    using ex_ts_B_down by blast
  show "\<exists>out q. get_station_locations world_B_down [] roster_AB = (Inr out, q)"
    using ex_gsl_B_down by blast
qed

text \<open>
  Claim C2, as stated, fails: with the first station A offline and the second station B
  online, \<open>make_density_plots\<close> raises \<^verbatim>\<open>TypeError\<close> at A, before it requests B. No axis is
  taken from B and no result is returned.
\<close>

theorem density_first_offline_counterexample:
  "fetches world_A_down [] roster_AB = [None, Some ds_recent] \<and>
   make_density_plots world_A_down [] roster_AB = (Inl TypeError, [request_url ''001''])"
  by (simp add: make_density_plots_def roster_AB_def get_buoy_data_def url_neq world_A_down_def)


section \<open>An empty window\<close>

text \<open>
  Claim C3. The samples of \<open>ds_stale\<close> are fifteen to twelve days old. The ten-day window
  selected from it is empty, and selecting it raises nothing; but \<open>plot_buoy\<close>, asked for
  the maximum as \<open>make_timeseries_plots\<close> asks, raises \<^verbatim>\<open>ValueError\<close> instead of reporting
  that there is no maximum, and \<open>make_timeseries_plots\<close> ends with that exception at the
  first station.
\<close>

theorem plot_buoy_empty_window_raises:
  "sel (wave ds_stale) (now world_stale - days 10) (now world_stale) = Inr [] \<and>
   plot_buoy world_stale ds_stale [] True = Inl ValueError \<and>
   make_timeseries_plots world_stale [] roster_AB = (Inl ValueError, [request_url ''001''])"
  by (simp add: make_timeseries_plots_def plot_buoy_def world_stale_def roster_AB_def
      get_buoy_data_def ex_sel_stale10)

section \<open>Frames stay well formed\<close>

lemma reindex_indexer_length:
  "reindex_indexer old new n = Inr idx \<Longrightarrow> length idx = length new"
  by (auto simp add: reindex_indexer_def get_indexer_def split: if_splits)


lemma reindex_to_frame:
  "reindex (to_frame key ds) target n = Inr al \<Longrightarrow>
     \<exists>idx. reindex_indexer (map fst (wave ds)) target n = Inr idx \<and>
       al = \<lparr>index = target,
             columns = [(key, take_rows (map (\<lambda>(t, v). Some (v * 3.28084)) (wave ds)) idx)]\<rparr>"
  by (auto simp add: reindex_def to_frame_def split: sum.splits)


lemma length_take_rows: "length (take_rows col idx) = length idx"
  by (simp add: take_rows_def)


lemma set_update_subset:
  "set (AList.update k v al) \<subseteq> insert (k, v) (set al)"
  by (induction al) auto

lemma wf_setitem:
  assumes "wf_frame df" and "setitem df key val = Inr df'" and "columns val = [(k, col)]"
    and "length col = length (index df)"
  shows "wf_frame df' \<and> index df' = index df"
proof -
  from assms(2,3) have d: "df' = df\<lparr>columns := AList.update key col (columns df)\<rparr>"
    by (simp add: setitem_def)
  show ?thesis
    using assms(1,4) set_update_subset[of key col "columns df"]
    unfolding d wf_frame_def by auto
qed

lemma density_loop_wf:
  "density_loop W reqs df ix r = (Inr out, q) \<Longrightarrow> wf_frame df \<Longrightarrow> index df = ix \<Longrightarrow>
     wf_frame out \<and> index out = ix"
proof (induction r arbitrary: reqs df)
  case Nil
  then show ?case by simp
next
  case (Cons a rest)
  obtain key v where a: "a = (key, v)" by (cases a)
  obtain o1 where g: "get_buoy_data W reqs v = (o1, reqs @ [request_url v])"
    using get_buoy_data_cases by blast
  from Cons.prems(1) a g obtain ds where o1: "o1 = Some ds"
    by (cases o1) auto
  with Cons.prems(1) a g obtain al df' where
    al: "reindex (to_frame key ds) ix 3 = Inr al" and
    si: "setitem df key al = Inr df'" and
    rec: "density_loop W (reqs @ [request_url v]) df' ix rest = (Inr out, q)"
    by (auto split: sum.splits)
  from reindex_to_frame[OF al] obtain idx where
    idx: "reindex_indexer (map fst (wave ds)) ix 3 = Inr idx" and
    alc: "columns al = [(key, take_rows (map (\<lambda>(t, v). Some (v * 3.28084)) (wave ds)) idx)]"
    by auto
  have "length (take_rows (map (\<lambda>(t, v). Some (v * 3.28084)) (wave ds)) idx) = length (index df)"
    using reindex_indexer_length[OF idx] Cons.prems(3) by (simp add: length_take_rows)
  from wf_setitem[OF Cons.prems(2) si alc this] Cons.prems(3)
  have "wf_frame df'" "index df' = ix" by simp_all
  from Cons.IH[OF rec this] show ?case .
qed



lemma wf_to_frame: "wf_frame (to_frame key ds)"
  by (simp add: wf_frame_def to_frame_def)


lemma ex_reindex_stale:
  "reindex (to_frame ''B'' ds_stale) [days 99, days 100] 3 =
     Inr \<lparr>index = [days 99, days 100],
          columns = [(''B'', [Some (2 * 3.28084), Some (2 * 3.28084)])]\<rparr>"
  by (simp add: reindex_def to_frame_def reindex_indexer_def get_indexer_def nearest_at_def
      pad_at_def backfill_at_def last_le_def first_ge_def distance_def take_rows_def
      ds_stale_def days_def)

lemma ex_density_mixed:
  "make_density_plots world_mixed [] roster_AB =
     (Inr (\<lparr>index = [days 99, days 100],
              columns = [(''A'', [Some (1.5 * 3.28084), Some (2 * 3.28084)]),
                         (''B'', [Some (2 * 3.28084), Some (2 * 3.28084)])]\<rparr>,
           \<lparr>index = [days 99, days 100],
              columns = [(''A'', [Some (1.5 * 3.28084), Some (2 * 3.28084)]),
                         (''B'', [Some (2 * 3.28084), Some (2 * 3.28084)])]\<rparr>),
      [request_url ''001'', request_url ''002''])"
proof -
  have i: "index (to_frame ''A'' ds_recent) = [days 99, days 100]"
    by (simp add: to_frame_def ds_recent_def)
  have c: "columns (to_frame ''A'' ds_recent) = [(''A'', [Some (1.5 * 3.28084), Some (2 * 3.28084)])]"
    by (simp add: to_frame_def ds_recent_def)
  have f: "to_frame ''A'' ds_recent = \<lparr>index = [days 99, days 100],
       columns = [(''A'', [Some (1.5 * 3.28084), Some (2 * 3.28084)])]\<rparr>"
    by (simp add: to_frame_def ds_recent_def)
  show ?thesis
    by (simp add: make_density_plots_def roster_AB_def get_buoy_data_def world_mixed_def url_neq
        i ex_reindex_stale setitem_def)
      (simp add: f recent_rows_def days_def)
qed


section \<open>The fill limit\<close>

lemma last_le_SomeD:
  assumes "last_le old t = Some i"
  shows "i < length old \<and> old ! i \<le> t"
proof -
  let ?tw = "takeWhile (\<lambda>x. x \<le> t) old"
  from assms have pos: "0 < length ?tw" and i: "i = length ?tw - 1"
    by (auto simp add: last_le_def Let_def split: if_splits)
  then have lt: "i < length ?tw" by simp
  have "length ?tw \<le> length old" by (rule length_takeWhile_le)
  with lt have 1: "i < length old" by simp
  from lt have "?tw ! i \<in> set ?tw" by (rule nth_mem)
  then have "?tw ! i \<le> t" by (auto dest: set_takeWhileD)
  with lt have "old ! i \<le> t" by (simp add: takeWhile_nth)
  with 1 show ?thesis by simp
qed

lemma first_ge_SomeD:
  assumes "first_ge old t = Some i"
  shows "i < length old \<and> t \<le> old ! i"
proof -
  let ?tw = "takeWhile (\<lambda>x. x < t) old"
  from assms have lt: "length ?tw < length old" and i: "i = length ?tw"
    by (auto simp add: first_ge_def Let_def split: if_splits)
  from nth_length_takeWhile[OF lt] have "\<not> old ! i < t" by (simp add: i)
  with lt i show ?thesis by simp
qed

lemma pad_at_SomeD:
  assumes "pad_at old n new j = Some i"
  shows "last_le old (new ! j) = Some i \<and>
         (old ! i = new ! j \<or> length (filter (\<lambda>t. old ! i < t) (take j new)) < n)"
  using assms by (auto simp add: pad_at_def split: option.splits if_splits)

lemma backfill_at_SomeD:
  assumes "backfill_at old n new j = Some i"
  shows "first_ge old (new ! j) = Some i \<and>
         (old ! i = new ! j \<or> length (filter (\<lambda>t. t < old ! i) (drop (Suc j) new)) < n)"
  using assms by (auto simp add: backfill_at_def split: option.splits if_splits)

lemma nearest_at_SomeD:
  "nearest_at old n new j = Some i \<Longrightarrow>
     pad_at old n new j = Some i \<or> backfill_at old n new j = Some i"
  by (auto simp add: nearest_at_def Let_def split: if_splits)

lemma reindex_indexer_nth:
  assumes "reindex_indexer old new n = Inr idx" and "j < length new" and "idx ! j = Some i"
  shows "(old = new \<and> i = j) \<or> (sorted old \<and> sorted new \<and> nearest_at old n new j = Some i)"
  using assms
  by (auto simp add: reindex_indexer_def get_indexer_def split: if_splits)

















section \<open>Which sample a position takes\<close>

lemma last_le_greatest:
  assumes "sorted old" and "last_le old t = Some i" and "k < length old" and "old ! k \<le> t"
  shows "k \<le> i"
proof (rule ccontr)
  let ?tw = "takeWhile (\<lambda>x. x \<le> t) old"
  assume "\<not> k \<le> i"
  moreover from assms(2) have "0 < length ?tw" "i = length ?tw - 1"
    by (auto simp add: last_le_def Let_def split: if_splits)
  ultimately have ge: "length ?tw \<le> k" by simp
  with assms(3) have lt: "length ?tw < length old" by simp
  from nth_length_takeWhile[OF lt] have "t < old ! length ?tw" by simp
  also from assms(1) ge assms(3) have "old ! length ?tw \<le> old ! k"
    by (simp add: sorted_nth_mono)
  finally show False using assms(4) by simp
qed

lemma last_le_NoneD:
  assumes "sorted old" and "last_le old t = None" and "k < length old"
  shows "t < old ! k"
proof -
  let ?tw = "takeWhile (\<lambda>x. x \<le> t) old"
  from assms(2) have z: "length ?tw = 0"
    by (simp add: last_le_def Let_def split: if_splits)
  with assms(3) have lt: "length ?tw < length old" by linarith
  from nth_length_takeWhile[OF lt] z have "t < old ! 0" by simp
  also from assms(1,3) have "old ! 0 \<le> old ! k" by (simp add: sorted_nth_mono)
  finally show ?thesis .
qed

lemma first_ge_least:
  assumes "first_ge old t = Some i" and "k < length old" and "t \<le> old ! k"
  shows "i \<le> k"
proof (rule ccontr)
  let ?tw = "takeWhile (\<lambda>x. x < t) old"
  assume "\<not> i \<le> k"
  moreover from assms(1) have "i = length ?tw"
    by (auto simp add: first_ge_def Let_def split: if_splits)
  ultimately have lt: "k < length ?tw" by simp
  then have "?tw ! k \<in> set ?tw" by (rule nth_mem)
  then have "?tw ! k < t" by (auto dest: set_takeWhileD)
  with lt have "old ! k < t" by (simp add: takeWhile_nth)
  with assms(3) show False by simp
qed

lemma first_ge_NoneD:
  assumes "first_ge old t = None" and "k < length old"
  shows "old ! k < t"
proof -
  let ?tw = "takeWhile (\<lambda>x. x < t) old"
  from assms(1) have "\<not> length ?tw < length old"
    by (auto simp add: first_ge_def Let_def split: if_splits)
  with assms(2) have lt: "k < length ?tw" by simp
  then have "?tw ! k \<in> set ?tw" by (rule nth_mem)
  then have "?tw ! k < t" by (auto dest: set_takeWhileD)
  with lt show ?thesis by (simp add: takeWhile_nth)
qed

text \<open>A sample \<open>i\<close> is adjacent to the instant \<open>t\<close> when no source timestamp lies between
  them.\<close>

lemma last_le_adjacent:
  assumes "sorted old" and "last_le old t = Some i" and "k < length old"
  shows "\<not> (old ! i < old ! k \<and> old ! k \<le> t) \<and> \<not> (t \<le> old ! k \<and> old ! k < old ! i)"
proof -
  from last_le_SomeD[OF assms(2)] have i: "i < length old" "old ! i \<le> t" by simp_all
  have "old ! k \<le> old ! i" if "old ! k \<le> t"
    using last_le_greatest[OF assms(1,2,3) that] assms(1) i(1) by (simp add: sorted_nth_mono)
  with i show ?thesis by auto
qed

lemma first_ge_adjacent:
  assumes "sorted old" and "first_ge old t = Some i" and "k < length old"
  shows "\<not> (old ! i < old ! k \<and> old ! k \<le> t) \<and> \<not> (t \<le> old ! k \<and> old ! k < old ! i)"
proof -
  from first_ge_SomeD[OF assms(2)] have i: "i < length old" "t \<le> old ! i" by simp_all
  have "old ! i \<le> old ! k" if "t \<le> old ! k"
    using first_ge_least[OF assms(2,3) that] assms(1,3) by (simp add: sorted_nth_mono)
  with i show ?thesis by auto
qed

lemma matched_is_adjacent:
  assumes "reindex_indexer old new n = Inr idx" and "j < length new" and "idx ! j = Some i"
    and "k < length old"
  shows "i < length old \<and>
         \<not> (old ! i < old ! k \<and> old ! k \<le> new ! j) \<and> \<not> (new ! j \<le> old ! k \<and> old ! k < old ! i)"
proof -
  from reindex_indexer_nth[OF assms(1-3)] show ?thesis
  proof
    assume "old = new \<and> i = j"
    with assms(2) show ?thesis by auto
  next
    assume a: "sorted old \<and> sorted new \<and> nearest_at old n new j = Some i"
    then have s: "sorted old" and na: "nearest_at old n new j = Some i" by simp_all
    from nearest_at_SomeD[OF na] show ?thesis
    proof
      assume "pad_at old n new j = Some i"
      from pad_at_SomeD[OF this] have l: "last_le old (new ! j) = Some i" by simp
      from last_le_SomeD[OF l] last_le_adjacent[OF s l assms(4)] show ?thesis by simp
    next
      assume "backfill_at old n new j = Some i"
      from backfill_at_SomeD[OF this] have f: "first_ge old (new ! j) = Some i" by simp
      from first_ge_SomeD[OF f] first_ge_adjacent[OF s f assms(4)] show ?thesis by simp
    qed
  qed
qed

lemma pad_at_unbound:
  assumes "j < n"
  shows "pad_at old n new j = last_le old (new ! j)"
proof -
  have "length (filter P (take j new)) < n" for P
    using length_filter_le[of P "take j new"] assms by simp
  then show ?thesis by (simp add: pad_at_def split: option.splits)
qed

lemma backfill_at_unbound:
  assumes "j < length new" and "length new \<le> j + n"
  shows "backfill_at old n new j = first_ge old (new ! j)"
proof -
  have "length (filter P (drop (Suc j) new)) < n" for P
    using length_filter_le[of P "drop (Suc j) new"] assms by simp
  then show ?thesis by (simp add: backfill_at_def split: option.splits)
qed

lemma nearest_is_closest:
  assumes s: "sorted old" and ne: "old \<noteq> []" and j: "j < length new" "j < n" "length new \<le> j + n"
  shows "\<exists>i<length old. nearest_at old n new j = Some i \<and>
           (\<forall>k<length old. \<bar>old ! i - new ! j\<bar> \<le> \<bar>old ! k - new ! j\<bar>)"
proof -
  let ?t = "new ! j"
  have l: "pad_at old n new j = last_le old ?t" by (rule pad_at_unbound[OF j(2)])
  have r: "backfill_at old n new j = first_ge old ?t" by (rule backfill_at_unbound[OF j(1,3)])
  from ne have len: "0 < length old" by simp
  show ?thesis
  proof (cases "first_ge old ?t")
    case None
    note rn = None
    have below: "old ! k < ?t" if "k < length old" for k
      using first_ge_NoneD[OF rn that] .
    show ?thesis
    proof (cases "last_le old ?t")
      case None
      from last_le_NoneD[OF s None len] below[OF len] show ?thesis by simp
    next
      case (Some li)
      from last_le_SomeD[OF Some] have li: "li < length old" "old ! li \<le> ?t" by simp_all
      have "\<bar>old ! li - ?t\<bar> \<le> \<bar>old ! k - ?t\<bar>" if k: "k < length old" for k
      proof -
        from below[OF k] have "old ! k \<le> ?t" by simp
        from last_le_greatest[OF s Some k this] s li(1) have "old ! k \<le> old ! li"
          by (simp add: sorted_nth_mono)
        with li(2) show ?thesis by simp
      qed
      moreover have "nearest_at old n new j = Some li"
        by (simp add: nearest_at_def l r rn Some)
      ultimately show ?thesis using li(1) by blast
    qed
  next
    case (Some ri)
    note rs = Some
    from first_ge_SomeD[OF rs] have ri: "ri < length old" "?t \<le> old ! ri" by simp_all
    have right: "\<bar>old ! ri - ?t\<bar> \<le> \<bar>old ! k - ?t\<bar>" if k: "k < length old" "?t \<le> old ! k" for k
    proof -
      from first_ge_least[OF rs k] s k(1) have "old ! ri \<le> old ! k"
        by (simp add: sorted_nth_mono)
      with ri(2) show ?thesis by simp
    qed
    show ?thesis
    proof (cases "last_le old ?t")
      case None
      have above: "?t < old ! k" if "k < length old" for k
        using last_le_NoneD[OF s None that] .
      have "last old = old ! (length old - 1)" using ne by (rule last_conv_nth)
      with above[of "length old - 1"] len right[of "length old - 1"]
      have "\<not> distance old None ?t < distance old (Some ri) ?t"
        by (simp add: distance_def)
      then have "nearest_at old n new j = Some ri"
        by (simp add: nearest_at_def l r rs None)
      moreover have "\<bar>old ! ri - ?t\<bar> \<le> \<bar>old ! k - ?t\<bar>" if k: "k < length old" for k
        using right[OF k] above[OF k] by simp
      ultimately show ?thesis using ri(1) by blast
    next
      case (Some li)
      from last_le_SomeD[OF Some] have li: "li < length old" "old ! li \<le> ?t" by simp_all
      have left: "\<bar>old ! li - ?t\<bar> \<le> \<bar>old ! k - ?t\<bar>" if k: "k < length old" "old ! k \<le> ?t" for k
      proof -
        from last_le_greatest[OF s Some k] s li(1) have "old ! k \<le> old ! li"
          by (simp add: sorted_nth_mono)
        with li(2) show ?thesis by simp
      qed
      show ?thesis
      proof (cases "\<bar>old ! li - ?t\<bar> < \<bar>old ! ri - ?t\<bar>")
        case True
        then have "nearest_at old n new j = Some li"
          by (simp add: nearest_at_def l r rs Some distance_def)
        moreover have "\<bar>old ! li - ?t\<bar> \<le> \<bar>old ! k - ?t\<bar>" if k: "k < length old" for k
        proof (cases "old ! k \<le> ?t")
          case True
          with left k show ?thesis by blast
        next
          case False
          then have "?t \<le> old ! k" by simp
          from right[OF k this] \<open>\<bar>old ! li - ?t\<bar> < \<bar>old ! ri - ?t\<bar>\<close> show ?thesis by simp
        qed
        ultimately show ?thesis using li(1) by blast
      next
        case False
        then have "nearest_at old n new j = Some ri"
          by (simp add: nearest_at_def l r rs Some distance_def)
        moreover have "\<bar>old ! ri - ?t\<bar> \<le> \<bar>old ! k - ?t\<bar>" if k: "k < length old" for k
        proof (cases "old ! k \<le> ?t")
          case True
          from left[OF k True] False show ?thesis by simp
        next
          case False
          then have "?t \<le> old ! k" by simp
          from right[OF k this] show ?thesis .
        qed
        ultimately show ?thesis using ri(1) by blast
      qed
    qed
  qed
qed

lemma indexer_closest_when_unbound:
  assumes idx: "reindex_indexer old new n = Inr idx" and ne: "old \<noteq> []"
    and j: "j < length new" "j < n" "length new \<le> j + n"
  shows "\<exists>i<length old. idx ! j = Some i \<and>
           (\<forall>k<length old. \<bar>old ! i - new ! j\<bar> \<le> \<bar>old ! k - new ! j\<bar>)"
proof (cases "old = new")
  case True
  with idx have "idx = map Some [0..<length new]" by (simp add: reindex_indexer_def)
  with j(1) have "idx ! j = Some j" by simp
  with True j(1) show ?thesis by auto
next
  case False
  with idx ne have s: "sorted old" and ij: "idx ! j = nearest_at old n new j"
    using j(1) by (auto simp add: reindex_indexer_def get_indexer_def split: if_splits)
  from nearest_is_closest[OF s ne j] ij show ?thesis by simp
qed

lemma take_rows_nth:
  assumes "j < length idx"
  shows "take_rows (map (\<lambda>(t, v). Some (v * c)) rows) idx ! j =
     (case idx ! j of None \<Rightarrow> None
      | Some i \<Rightarrow> map (\<lambda>(t, v). Some (v * c)) rows ! i)"
  using assms by (simp add: take_rows_def)

lemma scaled_nth:
  "i < length rows \<Longrightarrow> map (\<lambda>(t, v). Some (v * c)) rows ! i = Some (snd (rows ! i) * (c::real))"
  by (simp add: case_prod_beta)

lemma matched_in_range:
  assumes "reindex_indexer old new n = Inr idx" and "j < length new" and "idx ! j = Some i"
  shows "i < length old"
proof -
  from reindex_indexer_nth[OF assms] show ?thesis
  proof
    assume "old = new \<and> i = j"
    with assms(2) show ?thesis by simp
  next
    assume "sorted old \<and> sorted new \<and> nearest_at old n new j = Some i"
    then have "nearest_at old n new j = Some i" by simp
    from nearest_at_SomeD[OF this] show ?thesis
      using pad_at_SomeD last_le_SomeD backfill_at_SomeD first_ge_SomeD by blast
  qed
qed


section \<open>Samples in reach of a position\<close>

lemma reach_after_pad:
  assumes s: "sorted old" and i: "i < length old" "old ! i \<le> new ! j"
    and adj: "\<forall>k<length old. old ! k \<le> new ! j \<longrightarrow> old ! k \<le> old ! i"
    and c: "old ! i = new ! j \<or> length (filter (\<lambda>t. old ! i < t) (take j new)) < n"
  shows "\<exists>i'. pad_at old n new j = Some i' \<and> old ! i' = old ! i"
proof (cases "last_le old (new ! j)")
  case None
  from last_le_NoneD[OF s None i(1)] i(2) show ?thesis by simp
next
  case (Some i')
  from last_le_SomeD[OF Some] have i': "i' < length old" "old ! i' \<le> new ! j" by simp_all
  from adj i' have 1: "old ! i' \<le> old ! i" by simp
  from last_le_greatest[OF s Some i] s i'(1) have 2: "old ! i \<le> old ! i'"
    by (simp add: sorted_nth_mono)
  from 1 2 have e: "old ! i' = old ! i" by simp
  with c Some have "pad_at old n new j = Some i'" by (auto simp add: pad_at_def)
  with e show ?thesis by blast
qed

lemma reach_before_backfill:
  assumes s: "sorted old" and i: "i < length old" "new ! j \<le> old ! i"
    and adj: "\<forall>k<length old. new ! j \<le> old ! k \<longrightarrow> old ! i \<le> old ! k"
    and c: "old ! i = new ! j \<or> length (filter (\<lambda>t. t < old ! i) (drop (Suc j) new)) < n"
  shows "\<exists>i'. backfill_at old n new j = Some i' \<and> old ! i' = old ! i"
proof (cases "first_ge old (new ! j)")
  case None
  from first_ge_NoneD[OF None i(1)] i(2) show ?thesis by simp
next
  case (Some i')
  from first_ge_SomeD[OF Some] have i': "i' < length old" "new ! j \<le> old ! i'" by simp_all
  from adj i' have 1: "old ! i \<le> old ! i'" by simp
  from first_ge_least[OF Some i] s i(1) have 2: "old ! i' \<le> old ! i"
    by (simp add: sorted_nth_mono)
  from 1 2 have e: "old ! i' = old ! i" by simp
  with c Some have "backfill_at old n new j = Some i'" by (auto simp add: backfill_at_def)
  with e show ?thesis by blast
qed

lemma in_reach_cases:
  assumes s: "sorted old" and r: "in_reach old new n k j"
  shows "(\<exists>i'. pad_at old n new j = Some i' \<and> old ! i' = old ! k) \<or>
         (\<exists>i'. backfill_at old n new j = Some i' \<and> old ! i' = old ! k)"
  using r reach_after_pad[OF s, of k new j n] reach_before_backfill[OF s, of k new j n]
  unfolding in_reach_def by blast

lemma missing_distance_not_less:
  assumes s: "sorted old" and r: "backfill_at old n new j = Some ri"
  shows "\<not> distance old None (new ! j) < distance old (Some ri) (new ! j)"
proof -
  from backfill_at_SomeD[OF r] have "first_ge old (new ! j) = Some ri" by simp
  from first_ge_SomeD[OF this] have ri: "ri < length old" "new ! j \<le> old ! ri" by simp_all
  then have ne: "old \<noteq> []" by auto
  then have "last old = old ! (length old - 1)" by (rule last_conv_nth)
  moreover from s ri(1) have "old ! ri \<le> old ! (length old - 1)"
    by (intro sorted_nth_mono) auto
  ultimately show ?thesis using ri(2) by (simp add: distance_def)
qed

lemma nearest_at_filled:
  assumes s: "sorted old"
    and c: "pad_at old n new j \<noteq> None \<or> backfill_at old n new j \<noteq> None"
  shows "nearest_at old n new j \<noteq> None"
proof (cases "backfill_at old n new j")
  case None
  with c show ?thesis by (simp add: nearest_at_def Let_def)
next
  case (Some ri)
  show ?thesis
  proof (cases "pad_at old n new j")
    case None
    with Some missing_distance_not_less[OF s Some] show ?thesis
      by (simp add: nearest_at_def Let_def)
  next
    case (Some li)
    with \<open>backfill_at old n new j = Some ri\<close> show ?thesis
      by (simp add: nearest_at_def Let_def)
  qed
qed

lemma matched_in_reach:
  assumes idx: "reindex_indexer old new n = Inr idx" and j: "j < length new"
    and m: "idx ! j = Some i"
  shows "in_reach old new n i j"
proof -
  from reindex_indexer_nth[OF idx j m] show ?thesis
  proof
    assume "old = new \<and> i = j"
    with j show ?thesis by (simp add: in_reach_def)
  next
    assume a: "sorted old \<and> sorted new \<and> nearest_at old n new j = Some i"
    then have s: "sorted old" and na: "nearest_at old n new j = Some i" by simp_all
    from nearest_at_SomeD[OF na] show ?thesis
    proof
      assume p: "pad_at old n new j = Some i"
      from pad_at_SomeD[OF p] have l: "last_le old (new ! j) = Some i" and
        c: "old ! i = new ! j \<or> length (filter (\<lambda>t. old ! i < t) (take j new)) < n"
        by simp_all
      from last_le_SomeD[OF l] have i: "i < length old" "old ! i \<le> new ! j" by simp_all
      have "old ! k \<le> old ! i" if "k < length old" "old ! k \<le> new ! j" for k
        using last_le_greatest[OF s l that] s i(1) by (simp add: sorted_nth_mono)
      with i c show ?thesis unfolding in_reach_def by blast
    next
      assume b: "backfill_at old n new j = Some i"
      from backfill_at_SomeD[OF b] have f: "first_ge old (new ! j) = Some i" and
        c: "old ! i = new ! j \<or> length (filter (\<lambda>t. t < old ! i) (drop (Suc j) new)) < n"
        by simp_all
      from first_ge_SomeD[OF f] have i: "i < length old" "new ! j \<le> old ! i" by simp_all
      have "old ! i \<le> old ! k" if "k < length old" "new ! j \<le> old ! k" for k
        using first_ge_least[OF f that] s that(1) by (simp add: sorted_nth_mono)
      with i c show ?thesis unfolding in_reach_def by blast
    qed
  qed
qed

lemma indexer_nth_cases:
  assumes "reindex_indexer old new n = Inr idx" and "j < length new"
  shows "(old = new \<and> idx ! j = Some j) \<or>
         (old = [] \<and> idx ! j = None) \<or>
         (old \<noteq> [] \<and> sorted old \<and> sorted new \<and> idx ! j = nearest_at old n new j)"
  using assms
  by (auto simp add: reindex_indexer_def get_indexer_def split: if_splits)

lemma in_reach_filled:
  assumes idx: "reindex_indexer old new n = Inr idx" and j: "j < length new"
    and r: "in_reach old new n k j"
  shows "idx ! j \<noteq> None"
proof -
  from r have k: "k < length old" by (simp add: in_reach_def)
  from indexer_nth_cases[OF idx j] k
  consider "idx ! j = Some j" | "sorted old" "idx ! j = nearest_at old n new j"
    by auto
  then show ?thesis
  proof cases
    case 1
    then show ?thesis by simp
  next
    case 2
    from in_reach_cases[OF 2(1) r]
    have "pad_at old n new j \<noteq> None \<or> backfill_at old n new j \<noteq> None" by auto
    from nearest_at_filled[OF 2(1) this] 2(2) show ?thesis by simp
  qed
qed

lemma matched_nearest_in_reach:
  assumes idx: "reindex_indexer old new n = Inr idx" and j: "j < length new"
    and m: "idx ! j = Some i" and r: "in_reach old new n k j"
  shows "\<bar>old ! i - new ! j\<bar> \<le> \<bar>old ! k - new ! j\<bar>"
proof -
  from reindex_indexer_nth[OF idx j m] show ?thesis
  proof
    assume "old = new \<and> i = j"
    then show ?thesis by simp
  next
    assume a: "sorted old \<and> sorted new \<and> nearest_at old n new j = Some i"
    then have s: "sorted old" and na: "nearest_at old n new j = Some i" by simp_all
    let ?l = "pad_at old n new j" and ?r = "backfill_at old n new j"
    from in_reach_cases[OF s r] show ?thesis
    proof
      assume "\<exists>i'. ?l = Some i' \<and> old ! i' = old ! k"
      then obtain i' where l: "?l = Some i'" and e: "old ! i' = old ! k" by blast
      show ?thesis
      proof (cases "?r")
        case None
        with na l have "i = i'" by (simp add: nearest_at_def Let_def)
        with e show ?thesis by simp
      next
        case (Some ri)
        with na l have "(i = i' \<and> \<bar>old ! i' - new ! j\<bar> < \<bar>old ! ri - new ! j\<bar>) \<or>
            (i = ri \<and> \<not> \<bar>old ! i' - new ! j\<bar> < \<bar>old ! ri - new ! j\<bar>)"
          by (auto simp add: nearest_at_def Let_def distance_def split: if_splits)
        with e show ?thesis by auto
      qed
    next
      assume "\<exists>i'. ?r = Some i' \<and> old ! i' = old ! k"
      then obtain i' where rr: "?r = Some i'" and e: "old ! i' = old ! k" by blast
      show ?thesis
      proof (cases "?l")
        case None
        with na rr missing_distance_not_less[OF s rr] have "i = i'"
          by (simp add: nearest_at_def Let_def)
        with e show ?thesis by simp
      next
        case (Some li)
        with na rr have "(i = li \<and> \<bar>old ! li - new ! j\<bar> < \<bar>old ! i' - new ! j\<bar>) \<or>
            (i = i' \<and> \<not> \<bar>old ! li - new ! j\<bar> < \<bar>old ! i' - new ! j\<bar>)"
          by (auto simp add: nearest_at_def Let_def distance_def split: if_splits)
        with e show ?thesis by auto
      qed
    qed
  qed
qed

lemma missing_iff_out_of_reach:
  assumes "reindex_indexer old new n = Inr idx" and "j < length new"
  shows "(idx ! j = None) = (\<forall>i<length old. \<not> in_reach old new n i j)"
proof
  assume "idx ! j = None"
  with in_reach_filled[OF assms] show "\<forall>i<length old. \<not> in_reach old new n i j" by blast
next
  assume a: "\<forall>i<length old. \<not> in_reach old new n i j"
  show "idx ! j = None"
  proof (cases "idx ! j")
    case None
    then show ?thesis .
  next
    case (Some i)
    from matched_in_reach[OF assms Some] have r: "in_reach old new n i j" .
    then have "i < length old" by (simp add: in_reach_def)
    with a r show ?thesis by blast
  qed
qed

section \<open>No tolerance\<close>

lemma aligned_column:
  assumes "reindex (to_frame key ds) df_index n = Inr al"
  shows "\<exists>idx col. reindex_indexer (map fst (wave ds)) df_index n = Inr idx \<and>
           al = \<lparr>index = df_index, columns = [(key, col)]\<rparr> \<and>
           length col = length df_index \<and>
           (\<forall>j<length df_index.
              col ! j = map_option (\<lambda>i. snd (wave ds ! i) * 3.28084) (idx ! j))"
proof -
  let ?col = "map (\<lambda>(t, v). Some (v * 3.28084)) (wave ds)"
  from reindex_to_frame[OF assms] obtain idx where
    idx: "reindex_indexer (map fst (wave ds)) df_index n = Inr idx" and
    al: "al = \<lparr>index = df_index, columns = [(key, take_rows ?col idx)]\<rparr>"
    by blast
  have len: "length idx = length df_index" by (rule reindex_indexer_length[OF idx])
  have "take_rows ?col idx ! j = map_option (\<lambda>i. snd (wave ds ! i) * 3.28084) (idx ! j)"
    if j: "j < length df_index" for j
  proof (cases "idx ! j")
    case None
    with j len show ?thesis by (simp add: take_rows_def)
  next
    case (Some i)
    from matched_in_range[OF idx j Some] have il: "i < length (wave ds)" by simp
    from j len have jl: "j < length idx" by simp
    have "take_rows ?col idx ! j = ?col ! i"
      by (simp only: take_rows_nth[OF jl, of "3.28084" "wave ds"] Some option.case)
    also have "\<dots> = Some (snd (wave ds ! i) * 3.28084)"
      by (rule scaled_nth[OF il])
    finally show ?thesis by (simp only: Some option.map)
  qed
  with idx al len show ?thesis by (simp add: length_take_rows)
qed

lemma aligned_missing_iff:
  assumes idx: "reindex_indexer (map fst (wave ds)) df_index n = Inr idx"
    and col: "\<forall>j<length df_index. col ! j = map_option f (idx ! j)"
    and j: "j < length df_index"
  shows "(col ! j = None) = (\<forall>i<length (wave ds). \<not> in_reach (map fst (wave ds)) df_index n i j)"
proof -
  from col j have "(col ! j = None) = (idx ! j = None)" by simp
  with missing_iff_out_of_reach[OF idx j] show ?thesis by simp
qed

text \<open>
  Claim C4, as stated, fails: the program passes no tolerance to \<open>reindex\<close>. Every sample
  of \<open>ds_stale\<close> is more than thirty minutes (1800 seconds) away from both instants of the
  axis, in fact eleven days or more, and both positions still hold the value of its last
  sample.
\<close>

theorem far_sample_is_matched:
  "reindex (to_frame ''B'' ds_stale) [days 99, days 100] 3 =
     Inr \<lparr>index = [days 99, days 100],
          columns = [(''B'', [Some (2 * 3.28084), Some (2 * 3.28084)])]\<rparr> \<and>
   list_all (\<lambda>(t, v). 1800 < \<bar>t - days 99\<bar> \<and> 1800 < \<bar>t - days 100\<bar>) (wave ds_stale)"
  using ex_reindex_stale by (simp add: ds_stale_def days_def)

text \<open>
  Claim C4, amended. Aligning applies no tolerance. A position of the aligned column is
  missing exactly when no source sample is in reach of it under the fill limit 3, and
  \<open>in_reach\<close> does not look at the time between sample and instant. A filled position
  holds the converted value of a sample that is in reach, that is nearest in time among the
  samples in reach, and that is adjacent in time to the reference instant: no other source
  timestamp lies between the two, however far apart they are. At a position with fewer than
  3 axis positions before it and fewer than 3 after it the limit cannot bind, and for a
  non-empty series that position is always filled, with a sample nearest in time among all
  the source timestamps.
\<close>

theorem align_takes_adjacent_sample:
  assumes "reindex (to_frame key ds) df_index 3 = Inr al" and "j < length df_index"
  shows "\<exists>col. columns al = [(key, col)] \<and>
     ((col ! j = None) =
        (\<forall>i<length (wave ds). \<not> in_reach (map fst (wave ds)) df_index 3 i j)) \<and>
     (\<forall>x. col ! j = Some x \<longrightarrow>
        (\<exists>i<length (wave ds). x = snd (wave ds ! i) * 3.28084 \<and>
           in_reach (map fst (wave ds)) df_index 3 i j \<and>
           (\<forall>k<length (wave ds). in_reach (map fst (wave ds)) df_index 3 k j \<longrightarrow>
              \<bar>fst (wave ds ! i) - df_index ! j\<bar> \<le> \<bar>fst (wave ds ! k) - df_index ! j\<bar>) \<and>
           (\<forall>k<length (wave ds).
              \<not> (fst (wave ds ! i) < fst (wave ds ! k) \<and> fst (wave ds ! k) \<le> df_index ! j) \<and>
              \<not> (df_index ! j \<le> fst (wave ds ! k) \<and> fst (wave ds ! k) < fst (wave ds ! i))))) \<and>
     (wave ds \<noteq> [] \<and> j < 3 \<and> length df_index \<le> j + 3 \<longrightarrow>
        (\<exists>i<length (wave ds). col ! j = Some (snd (wave ds ! i) * 3.28084) \<and>
           (\<forall>k<length (wave ds).
              \<bar>fst (wave ds ! i) - df_index ! j\<bar> \<le> \<bar>fst (wave ds ! k) - df_index ! j\<bar>)))"
proof -
  let ?old = "map fst (wave ds)"
  from aligned_column[OF assms(1)] obtain idx col where
    idx: "reindex_indexer ?old df_index 3 = Inr idx" and
    al: "al = \<lparr>index = df_index, columns = [(key, col)]\<rparr>" and
    col: "\<forall>j<length df_index. col ! j = map_option (\<lambda>i. snd (wave ds ! i) * 3.28084) (idx ! j)"
    by blast
  note j = assms(2)
  from col j have cj: "col ! j = map_option (\<lambda>i. snd (wave ds ! i) * 3.28084) (idx ! j)" by simp
  have 1: "(col ! j = None) = (\<forall>i<length (wave ds). \<not> in_reach ?old df_index 3 i j)"
    by (rule aligned_missing_iff[OF idx col j])
  have 2: "\<exists>i<length (wave ds). x = snd (wave ds ! i) * 3.28084 \<and>
           in_reach ?old df_index 3 i j \<and>
           (\<forall>k<length (wave ds). in_reach ?old df_index 3 k j \<longrightarrow>
              \<bar>fst (wave ds ! i) - df_index ! j\<bar> \<le> \<bar>fst (wave ds ! k) - df_index ! j\<bar>) \<and>
           (\<forall>k<length (wave ds).
              \<not> (fst (wave ds ! i) < fst (wave ds ! k) \<and> fst (wave ds ! k) \<le> df_index ! j) \<and>
              \<not> (df_index ! j \<le> fst (wave ds ! k) \<and> fst (wave ds ! k) < fst (wave ds ! i)))"
    if x: "col ! j = Some x" for x
  proof -
    from x cj obtain i where i: "idx ! j = Some i" and xi: "x = snd (wave ds ! i) * 3.28084"
      by (cases "idx ! j") simp_all
    from matched_in_range[OF idx j i] have il: "i < length (wave ds)" by simp
    have r: "in_reach ?old df_index 3 i j" by (rule matched_in_reach[OF idx j i])
    have near: "\<bar>fst (wave ds ! i) - df_index ! j\<bar> \<le> \<bar>fst (wave ds ! k) - df_index ! j\<bar>"
      if "k < length (wave ds)" "in_reach ?old df_index 3 k j" for k
      using matched_nearest_in_reach[OF idx j i that(2)] il that(1) by simp
    have adj: "\<not> (fst (wave ds ! i) < fst (wave ds ! k) \<and> fst (wave ds ! k) \<le> df_index ! j) \<and>
          \<not> (df_index ! j \<le> fst (wave ds ! k) \<and> fst (wave ds ! k) < fst (wave ds ! i))"
      if k: "k < length (wave ds)" for k
    proof -
      from k have "k < length ?old" by simp
      from matched_is_adjacent[OF idx j i this] il k show ?thesis by simp
    qed
    from il xi r near adj show ?thesis by blast
  qed
  have 3: "\<exists>i<length (wave ds). col ! j = Some (snd (wave ds ! i) * 3.28084) \<and>
           (\<forall>k<length (wave ds).
              \<bar>fst (wave ds ! i) - df_index ! j\<bar> \<le> \<bar>fst (wave ds ! k) - df_index ! j\<bar>)"
    if h: "wave ds \<noteq> [] \<and> j < 3 \<and> length df_index \<le> j + 3"
  proof -
    from h have ne: "?old \<noteq> []" and j3: "j < 3" "length df_index \<le> j + 3" by simp_all
    from indexer_closest_when_unbound[OF idx ne j j3] obtain i where
      i: "i < length (wave ds)" "idx ! j = Some i" and
      c: "\<forall>k<length (wave ds). \<bar>?old ! i - df_index ! j\<bar> \<le> \<bar>?old ! k - df_index ! j\<bar>"
      by auto
    from cj i(2) have "col ! j = Some (snd (wave ds ! i) * 3.28084)" by simp
    moreover from c i(1) have "\<forall>k<length (wave ds).
              \<bar>fst (wave ds ! i) - df_index ! j\<bar> \<le> \<bar>fst (wave ds ! k) - df_index ! j\<bar>"
      by simp
    ultimately show ?thesis using i(1) by blast
  qed
  from al 1 2 3 show ?thesis by simp
qed

theorem align_takes_adjacent_sample_witness:
  "reindex (to_frame ''B'' ds_stale) [days 99, days 100] 3 =
     Inr \<lparr>index = [days 99, days 100],
          columns = [(''B'', [Some (2 * 3.28084), Some (2 * 3.28084)])]\<rparr> \<and>
   (0::nat) < length [days 99, days 100] \<and>
   wave ds_stale \<noteq> [] \<and> (0::nat) < 3 \<and> length [days 99, days 100] \<le> (0::nat) + 3 \<and>
   (\<exists>i<length (wave ds_stale). in_reach (map fst (wave ds_stale)) [days 99, days 100] 3 i 0) \<and>
   (\<exists>i<length (wave ds_stale).
      [Some (2 * 3.28084), Some (2 * 3.28084)] ! 0 = Some (snd (wave ds_stale ! i) * 3.28084) \<and>
      (\<forall>k<length (wave ds_stale).
         \<bar>fst (wave ds_stale ! i) - [days 99, days 100] ! 0\<bar>
           \<le> \<bar>fst (wave ds_stale ! k) - [days 99, days 100] ! 0\<bar>))"
proof -
  let ?c = "[Some (2 * 3.28084), Some (2 * 3.28084 :: real)]"
  have ne: "wave ds_stale \<noteq> []" by (simp add: ds_stale_def)
  from align_takes_adjacent_sample[OF ex_reindex_stale, of 0] obtain col where
    c: "[(''B'', ?c)] = [(''B'', col)]" and
    p1: "(col ! 0 = None) =
           (\<forall>i<length (wave ds_stale).
              \<not> in_reach (map fst (wave ds_stale)) [days 99, days 100] 3 i 0)" and
    p3: "wave ds_stale \<noteq> [] \<and> (0::nat) < 3 \<and> length [days 99, days 100] \<le> (0::nat) + 3 \<longrightarrow>
        (\<exists>i<length (wave ds_stale). col ! 0 = Some (snd (wave ds_stale ! i) * 3.28084) \<and>
           (\<forall>k<length (wave ds_stale).
              \<bar>fst (wave ds_stale ! i) - [days 99, days 100] ! 0\<bar>
                \<le> \<bar>fst (wave ds_stale ! k) - [days 99, days 100] ! 0\<bar>))"
    by auto
  from c have col: "col = ?c" by simp
  from p1 col have r: "\<exists>i<length (wave ds_stale).
      in_reach (map fst (wave ds_stale)) [days 99, days 100] 3 i 0"
    by auto
  from p3 ne have "\<exists>i<length (wave ds_stale). col ! 0 = Some (snd (wave ds_stale ! i) * 3.28084) \<and>
           (\<forall>k<length (wave ds_stale).
              \<bar>fst (wave ds_stale ! i) - [days 99, days 100] ! 0\<bar>
                \<le> \<bar>fst (wave ds_stale ! k) - [days 99, days 100] ! 0\<bar>)"
    by simp
  then have e: "\<exists>i<length (wave ds_stale). ?c ! 0 = Some (snd (wave ds_stale ! i) * 3.28084) \<and>
           (\<forall>k<length (wave ds_stale).
              \<bar>fst (wave ds_stale ! i) - [days 99, days 100] ! 0\<bar>
                \<le> \<bar>fst (wave ds_stale ! k) - [days 99, days 100] ! 0\<bar>)"
    unfolding col .
  from ex_reindex_stale ne r e show ?thesis by simp
qed

section \<open>Aligned columns have the length of the axis\<close>






section \<open>The reference axis\<close>

lemma update_fresh:
  "k \<notin> fst ` set al \<Longrightarrow> AList.update k v al = al @ [(k, v)]"
  by (induction al) auto

lemma density_loop_columns:
  assumes "density_loop W reqs df ix r = (Inr out, q)"
    and "distinct (map fst (columns df) @ map fst r)"
  shows "\<exists>cols. columns out = columns df @ cols \<and> length cols = length r \<and>
           (\<forall>i<length r. \<exists>ds. fetches W reqs r ! i = Some ds \<and>
              reindex (to_frame (fst (r ! i)) ds) ix 3 = Inr \<lparr>index = ix, columns = [cols ! i]\<rparr>)"
  using assms
proof (induction r arbitrary: reqs df)
  case Nil
  then show ?case by simp
next
  case (Cons a rest)
  obtain key v where a: "a = (key, v)" by (cases a)
  obtain o1 where g: "get_buoy_data W reqs v = (o1, reqs @ [request_url v])"
    using get_buoy_data_cases by blast
  from Cons.prems(1) a g obtain ds where o1: "o1 = Some ds"
    by (cases o1) auto
  with Cons.prems(1) a g obtain al df' where
    al: "reindex (to_frame key ds) ix 3 = Inr al" and
    si: "setitem df key al = Inr df'" and
    rec: "density_loop W (reqs @ [request_url v]) df' ix rest = (Inr out, q)"
    by (auto split: sum.splits)
  from reindex_to_frame[OF al] obtain c where alc: "al = \<lparr>index = ix, columns = [(key, c)]\<rparr>"
    by blast
  from Cons.prems(2) a have fresh: "key \<notin> fst ` set (columns df)" by auto
  from si alc have "columns df' = AList.update key c (columns df)"
    by (auto simp add: setitem_def)
  with fresh have cd: "columns df' = columns df @ [(key, c)]" by (simp add: update_fresh)
  with Cons.prems(2) a have "distinct (map fst (columns df') @ map fst rest)" by auto
  from Cons.IH[OF rec this] obtain cols where
    co: "columns out = columns df' @ cols" and len: "length cols = length rest" and
    each: "\<forall>i<length rest. \<exists>ds. fetches W (reqs @ [request_url v]) rest ! i = Some ds \<and>
              reindex (to_frame (fst (rest ! i)) ds) ix 3 = Inr \<lparr>index = ix, columns = [cols ! i]\<rparr>"
    by blast
  have "\<exists>ds'. fetches W reqs (a # rest) ! i = Some ds' \<and>
          reindex (to_frame (fst ((a # rest) ! i)) ds') ix 3 =
            Inr \<lparr>index = ix, columns = [((key, c) # cols) ! i]\<rparr>"
    if "i < length (a # rest)" for i
  proof (cases i)
    case 0
    with a g o1 al alc show ?thesis by simp
  next
    case (Suc i')
    with that each a g show ?thesis by simp
  qed
  with co cd len show ?case
    by (intro exI[of _ "(key, c) # cols"]) simp
qed

lemma make_density_plots_first:
  assumes "make_density_plots W reqs ((key, v) # rest) = (Inr (df, df_recent), q)"
  shows "\<exists>ds. fst (get_buoy_data W reqs v) = Some ds \<and>
           density_loop W (reqs @ [request_url v]) (to_frame key ds) (map fst (wave ds)) rest
             = (Inr df, q) \<and>
           df_recent = recent_rows df (now W - days 30)"
proof -
  obtain o1 where g: "get_buoy_data W reqs v = (o1, reqs @ [request_url v])"
    using get_buoy_data_cases by blast
  from assms g obtain ds where o1: "o1 = Some ds"
    by (cases o1) (auto simp add: make_density_plots_def)
  with assms g show ?thesis
    by (auto simp add: make_density_plots_def to_frame_def split: prod.splits sum.splits)
qed

text \<open>
  Claim C2, amended. The reference axis is the time index of the first roster entry, the
  iteration \<open>i = 0\<close>, and of no later one: whenever the first station's fetch succeeds and
  \<open>make_density_plots\<close> returns, the index of the matrix is the first station's own time
  axis (of which the plotted matrix keeps the instants of the last thirty days), the first
  column is that station's converted series, and, the roster's names being distinct, the
  column of every later station is the result of reindexing that station's own fetched
  series onto that axis at the moment the station is processed. Nothing is buffered and
  nothing is aligned again later.
\<close>

theorem density_axis_from_first_station:
  assumes "make_density_plots W reqs ((key, v) # rest) = (Inr (df, df_recent), q)"
    and "fetches W reqs ((key, v) # rest) ! 0 = Some ds"
  shows "index df = map fst (wave ds) \<and>
         index df_recent = filter (\<lambda>t. now W - days 30 < t) (map fst (wave ds)) \<and>
         (distinct (map fst ((key, v) # rest)) \<longrightarrow>
            length (columns df) = Suc (length rest) \<and>
            columns df ! 0 = (key, map (\<lambda>(t, x). Some (x * 3.28084)) (wave ds)) \<and>
            (\<forall>i<length rest. \<exists>ds'.
               fetches W reqs ((key, v) # rest) ! Suc i = Some ds' \<and>
               reindex (to_frame (fst (rest ! i)) ds') (map fst (wave ds)) 3 =
                 Inr \<lparr>index = map fst (wave ds), columns = [columns df ! Suc i]\<rparr>))"
proof -
  from make_density_plots_first[OF assms(1)] assms(2) have
    dl: "density_loop W (reqs @ [request_url v]) (to_frame key ds) (map fst (wave ds)) rest
           = (Inr df, q)" and
    rec: "df_recent = recent_rows df (now W - days 30)"
    by auto
  from density_loop_wf[OF dl wf_to_frame] have ix: "index df = map fst (wave ds)"
    by (simp add: to_frame_def)
  with rec have ixr: "index df_recent = filter (\<lambda>t. now W - days 30 < t) (map fst (wave ds))"
    by (simp add: recent_rows_def)
  have "length (columns df) = Suc (length rest) \<and>
        columns df ! 0 = (key, map (\<lambda>(t, x). Some (x * 3.28084)) (wave ds)) \<and>
        (\<forall>i<length rest. \<exists>ds'.
               fetches W reqs ((key, v) # rest) ! Suc i = Some ds' \<and>
               reindex (to_frame (fst (rest ! i)) ds') (map fst (wave ds)) 3 =
                 Inr \<lparr>index = map fst (wave ds), columns = [columns df ! Suc i]\<rparr>)"
    if d: "distinct (map fst ((key, v) # rest))"
  proof -
    from d have "distinct (map fst (columns (to_frame key ds)) @ map fst rest)"
      by (simp add: to_frame_def)
    from density_loop_columns[OF dl this] obtain cols where
      co: "columns df = columns (to_frame key ds) @ cols" and len: "length cols = length rest" and
      each: "\<forall>i<length rest. \<exists>ds'. fetches W (reqs @ [request_url v]) rest ! i = Some ds' \<and>
              reindex (to_frame (fst (rest ! i)) ds') (map fst (wave ds)) 3 =
                Inr \<lparr>index = map fst (wave ds), columns = [cols ! i]\<rparr>"
      by blast
    from co have co': "columns df = (key, map (\<lambda>(t, x). Some (x * 3.28084)) (wave ds)) # cols"
      by (simp add: to_frame_def)
    with len each show ?thesis by (simp add: get_buoy_data_log)
  qed
  with ix ixr show ?thesis by blast
qed

theorem density_axis_from_first_station_witness:
  "(\<exists>df df_recent q.
      make_density_plots world_mixed [] ((''A'', ''001'') # [(''B'', ''002'')]) = (Inr (df, df_recent), q) \<and>
      index df = map fst (wave ds_recent) \<and>
      columns df ! Suc 0 = (''B'', [Some (2 * 3.28084), Some (2 * 3.28084)])) \<and>
   fetches world_mixed [] ((''A'', ''001'') # [(''B'', ''002'')]) ! 0 = Some ds_recent \<and>
   distinct (map fst ((''A'', ''001'') # [(''B'', ''002'')]))"
proof -
  have f: "fetches world_mixed [] ((''A'', ''001'') # [(''B'', ''002'')]) ! 0 = Some ds_recent"
    by (simp add: get_buoy_data_def world_mixed_def url_neq)
  from density_axis_from_first_station[OF ex_density_mixed[unfolded roster_AB_def] f]
    ex_density_mixed[unfolded roster_AB_def] f
  show ?thesis by simp
qed


end
